theory Spec2Isabelle
  imports Main "HOL-Library.AList"
begin

section \<open>Strings, timestamps and the JavaScript built-ins in use\<close>

text \<open>
  A JavaScript string is the sequence of its UTF-16 code units, each a number. Timestamps
  are the instant read from the clock, in milliseconds: the source stores them as ISO-8601
  strings of fixed width in UTC, which order like the instants they denote, so
  \<open>localeCompare\<close> on two of them is the comparison of the instants.
  \<open>String.prototype.toLowerCase\<close> belongs to the JavaScript runtime and not to this
  repository: every function that calls it takes the case folding as its first argument
  \<open>lc\<close>, and every theorem holds for every such function. \<open>asciiLower\<close> is one
  instance (exact on strings of ASCII code units).
\<close>

type_synonym jsstring = "nat list"
type_synonym timestamp = nat

definition str :: "string \<Rightarrow> jsstring" where
  "str cs = map of_char cs"

definition asciiLower :: "jsstring \<Rightarrow> jsstring" where
  "asciiLower s = map (\<lambda>c. if 65 \<le> c \<and> c \<le> 90 then c + 32 else c) s"


definition startsWith :: "jsstring \<Rightarrow> jsstring \<Rightarrow> bool" where
  "startsWith s p = (take (length p) s = p)"

text \<open>\<open>xs.join(sep)\<close>\<close>

fun join :: "jsstring \<Rightarrow> jsstring list \<Rightarrow> jsstring" where
  "join sep [] = []"
| "join sep [x] = x"
| "join sep (x # y # ys) = x @ sep @ join sep (y # ys)"

text \<open>
  The character class of the tokenizer (a to z, 0 to 9, and the code units U+00C0 to
  U+024F) and \<open>text.match(/[...]+/g)\<close> on it: the maximal
  runs of class characters, left to right. JavaScript returns \<open>null\<close> when there is no
  run; both callers turn \<open>null\<close> into "no words", which is the empty list here.
\<close>

definition wordChar :: "nat \<Rightarrow> bool" where
  "wordChar c = ((97 \<le> c \<and> c \<le> 122) \<or> (48 \<le> c \<and> c \<le> 57) \<or> (192 \<le> c \<and> c \<le> 591))"

fun scanWords :: "jsstring \<Rightarrow> jsstring \<Rightarrow> jsstring list" where
  "scanWords cur [] = (if cur = [] then [] else [cur])"
| "scanWords cur (c # cs) =
     (if wordChar c then scanWords (cur @ [c]) cs
      else if cur = [] then scanWords [] cs
      else cur # scanWords [] cs)"

definition matchWords :: "jsstring \<Rightarrow> jsstring list" where
  "matchWords s = scanWords [] s"

text \<open>\<open>[...new Set(words)]\<close>: duplicates dropped, the first occurrence kept.\<close>

definition uniq :: "'a list \<Rightarrow> 'a list" where
  "uniq xs = rev (remdups (rev xs))"

text \<open>\<open>Array.prototype.sort\<close> with a comparator: a stable sort.\<close>

fun insertBy :: "('a \<Rightarrow> 'a \<Rightarrow> int) \<Rightarrow> 'a \<Rightarrow> 'a list \<Rightarrow> 'a list" where
  "insertBy cmp x [] = [x]"
| "insertBy cmp x (y # ys) = (if cmp x y \<le> 0 then x # y # ys else y # insertBy cmp x ys)"

definition sortBy :: "('a \<Rightarrow> 'a \<Rightarrow> int) \<Rightarrow> 'a list \<Rightarrow> 'a list" where
  "sortBy cmp xs = foldr (insertBy cmp) xs []"

text \<open>
  \<open>Array.prototype.filter\<close> with a callback that may throw (\<open>None\<close>): the elements are
  tested from left to right, and the first throw ends the call.
\<close>

fun filterThrowing :: "('a \<Rightarrow> bool option) \<Rightarrow> 'a list \<Rightarrow> 'a list option" where
  "filterThrowing p [] = Some []"
| "filterThrowing p (x # xs) =
     (case p x of
        None \<Rightarrow> None
      | Some b \<Rightarrow>
          (case filterThrowing p xs of
             None \<Rightarrow> None
           | Some ys \<Rightarrow> Some (if b then x # ys else ys)))"

text \<open>\<open>xs.includes(x)\<close>, which throws when \<open>xs\<close> is \<open>undefined\<close>.\<close>

definition includesJs :: "'a list option \<Rightarrow> 'a \<Rightarrow> bool option" where
  "includesJs xs x = map_option (\<lambda>ys. x \<in> set ys) xs"

text \<open>An element of an array that is \<open>undefined\<close> is joined as the empty string.\<close>

definition joined :: "jsstring option \<Rightarrow> jsstring" where
  "joined x = (case x of None \<Rightarrow> [] | Some s \<Rightarrow> s)"

section \<open>Data model (metadata.ts)\<close>

text \<open>
  \<open>Asset\<close> and \<open>Collection\<close>. The input of \<open>createAsset\<close> is
  \<open>Omit<Asset, "id" | "createdAt" | "updatedAt">\<close>, so the asset record extends the input
  record by these three fields. The field \<open>id\<close> is \<open>a_id\<close> (\<open>c_id\<close> for a collection),
  and the collection's fields that an asset has too carry the prefix \<open>c_\<close>. Byte sizes,
  durations and counts are integers. An optional field (\<open>duration?\<close>) is an option.
\<close>

datatype proxy_status = Pending | Processing | Ready | Failed | NoProxy

record asset_input =
  filename :: jsstring
  mimeType :: jsstring
  fileSize :: int
  duration :: "int option"
  resolution :: "jsstring option"
  codec :: "jsstring option"
  title :: jsstring
  description :: jsstring
  tags :: "jsstring list"
  customMeta :: "(jsstring \<times> jsstring) list"
  minioKey :: jsstring
  proxyKey :: "jsstring option"
  thumbnailKey :: "jsstring option"
  posterKey :: "jsstring option"
  proxyStatus :: proxy_status
  collections :: "jsstring list"

record asset = asset_input +
  a_id :: jsstring
  createdAt :: timestamp
  updatedAt :: timestamp

text \<open>
  The record \<open>asset\<close> is an object that has the type \<open>Asset\<close>: \<open>createAsset\<close> builds
  one from its typed input. \<open>parseAsset\<close> is \<open>JSON.parse(raw) as Asset\<close>, a cast that
  checks nothing, and \<open>updateAsset\<close> writes \<open>{...existing, ...updates}\<close> for a
  \<open>Partial<Asset>\<close>, whose properties may each be supplied as \<open>undefined\<close>; the
  spread copies such a property and \<open>JSON.stringify\<close> then leaves it out. So the object
  that a read of the store hands out may lack any property but \<open>id\<close>, \<open>createdAt\<close> and
  \<open>updatedAt\<close>, which every write of this module sets. \<open>stored_asset\<close> is that object:
  \<open>None\<close> is a property that is missing (read as \<open>undefined\<close>).
\<close>

record stored_asset =
  s_filename :: "jsstring option"
  s_mimeType :: "jsstring option"
  s_fileSize :: "int option"
  s_duration :: "int option"
  s_resolution :: "jsstring option"
  s_codec :: "jsstring option"
  s_title :: "jsstring option"
  s_description :: "jsstring option"
  s_tags :: "jsstring list option"
  s_customMeta :: "(jsstring \<times> jsstring) list option"
  s_minioKey :: "jsstring option"
  s_proxyKey :: "jsstring option"
  s_thumbnailKey :: "jsstring option"
  s_posterKey :: "jsstring option"
  s_proxyStatus :: "proxy_status option"
  s_collections :: "jsstring list option"
  s_id :: jsstring
  s_createdAt :: timestamp
  s_updatedAt :: timestamp

text \<open>
  \<open>stored a\<close> is what \<open>JSON.parse(JSON.stringify(a))\<close> is for an object \<open>a\<close> of type
  \<open>Asset\<close>, and \<open>typed\<close> reads a stored object back as one when no required property
  is missing.
\<close>

definition stored :: "asset \<Rightarrow> stored_asset" where
  "stored a =
     \<lparr>s_filename = Some (filename a), s_mimeType = Some (mimeType a),
      s_fileSize = Some (fileSize a), s_duration = duration a, s_resolution = resolution a,
      s_codec = codec a, s_title = Some (title a), s_description = Some (description a),
      s_tags = Some (tags a), s_customMeta = Some (customMeta a),
      s_minioKey = Some (minioKey a), s_proxyKey = proxyKey a,
      s_thumbnailKey = thumbnailKey a, s_posterKey = posterKey a,
      s_proxyStatus = Some (proxyStatus a), s_collections = Some (collections a),
      s_id = a_id a, s_createdAt = createdAt a, s_updatedAt = updatedAt a\<rparr>"

definition complete :: "stored_asset \<Rightarrow> bool" where
  "complete r =
     (s_filename r \<noteq> None \<and> s_mimeType r \<noteq> None \<and> s_fileSize r \<noteq> None \<and>
      s_title r \<noteq> None \<and> s_description r \<noteq> None \<and> s_tags r \<noteq> None \<and>
      s_customMeta r \<noteq> None \<and> s_minioKey r \<noteq> None \<and> s_proxyStatus r \<noteq> None \<and>
      s_collections r \<noteq> None)"

definition typed :: "stored_asset \<Rightarrow> asset option" where
  "typed r =
     (if complete r
      then Some \<lparr>filename = the (s_filename r), mimeType = the (s_mimeType r),
             fileSize = the (s_fileSize r), duration = s_duration r,
             resolution = s_resolution r, codec = s_codec r, title = the (s_title r),
             description = the (s_description r), tags = the (s_tags r),
             customMeta = the (s_customMeta r), minioKey = the (s_minioKey r),
             proxyKey = s_proxyKey r, thumbnailKey = s_thumbnailKey r,
             posterKey = s_posterKey r, proxyStatus = the (s_proxyStatus r),
             collections = the (s_collections r), a_id = s_id r,
             createdAt = s_createdAt r, updatedAt = s_updatedAt r\<rparr>
      else None)"

record collection =
  c_id :: jsstring
  c_name :: jsstring
  c_description :: jsstring
  coverAssetId :: "jsstring option"
  assetCount :: int
  c_createdAt :: timestamp
  c_updatedAt :: timestamp

text \<open>
  \<open>Partial<Asset>\<close>: \<open>None\<close> is a property the caller left out, \<open>Some None\<close> a property
  supplied as \<open>undefined\<close> (the type \<open>Partial\<close> admits it for every property), and
  \<open>Some (Some v)\<close> a property supplied with the value \<open>v\<close>. The three properties that
  \<open>updateAsset\<close> overwrites whatever is supplied have one level only. In
  \<open>Partial<Collection>\<close>, \<open>None\<close> is a field left out and \<open>Some v\<close> a field supplied
  with the value \<open>v\<close>; for the optional \<open>coverAssetId\<close>, \<open>Some None\<close> is the field
  supplied as \<open>undefined\<close>.
\<close>

record asset_updates =
  u_id :: "jsstring option"
  u_filename :: "jsstring option option"
  u_mimeType :: "jsstring option option"
  u_fileSize :: "int option option"
  u_duration :: "int option option"
  u_resolution :: "jsstring option option"
  u_codec :: "jsstring option option"
  u_title :: "jsstring option option"
  u_description :: "jsstring option option"
  u_tags :: "jsstring list option option"
  u_customMeta :: "(jsstring \<times> jsstring) list option option"
  u_minioKey :: "jsstring option option"
  u_proxyKey :: "jsstring option option"
  u_thumbnailKey :: "jsstring option option"
  u_posterKey :: "jsstring option option"
  u_proxyStatus :: "proxy_status option option"
  u_collections :: "jsstring list option option"
  u_createdAt :: "timestamp option"
  u_updatedAt :: "timestamp option"

record collection_updates =
  uc_id :: "jsstring option"
  uc_name :: "jsstring option"
  uc_description :: "jsstring option"
  uc_coverAssetId :: "jsstring option option"
  uc_assetCount :: "int option"
  uc_createdAt :: "timestamp option"
  uc_updatedAt :: "timestamp option"

definition noUpdates :: asset_updates where
  "noUpdates = \<lparr>u_id = None, u_filename = None, u_mimeType = None, u_fileSize = None,
     u_duration = None, u_resolution = None, u_codec = None, u_title = None,
     u_description = None, u_tags = None, u_customMeta = None, u_minioKey = None,
     u_proxyKey = None, u_thumbnailKey = None, u_posterKey = None, u_proxyStatus = None,
     u_collections = None, u_createdAt = None, u_updatedAt = None\<rparr>"

text \<open>
  One property of \<open>{...existing, ...updates}\<close>: the supplied value, which may be
  \<open>undefined\<close>, or else the old one. And \<open>updates.p ?? existing.p\<close>: the supplied value
  unless it is left out or \<open>undefined\<close>, and then the old one.
\<close>

definition spread :: "'a \<Rightarrow> 'a option \<Rightarrow> 'a" where
  "spread old u = (case u of None \<Rightarrow> old | Some v \<Rightarrow> v)"

definition coalesce :: "'a option option \<Rightarrow> 'a option \<Rightarrow> 'a option" where
  "coalesce u old = (case u of Some (Some v) \<Rightarrow> Some v | _ \<Rightarrow> old)"

text \<open>
  What a function of this module throws: the two errors of the relationship functions,
  and the \<open>TypeError\<close> of the runtime where a list that is \<open>undefined\<close> is spread,
  iterated or has a method called on it.
\<close>

datatype error = CollectionNotFound jsstring | AssetNotFound jsstring | TypeError

section \<open>The key-value store\<close>

text \<open>
  The Valkey keyspace, one field per key pattern of \<open>KEYS\<close>; the patterns are pairwise
  disjoint as strings, whatever the identifiers are. A string key holds the entity that
  \<open>JSON.parse\<close> gives back from what \<open>JSON.stringify\<close> wrote; the asset and collection
  keys are association lists, so that the live entities can be enumerated. An unordered
  set is the list of its members without repetition (the order in which the store hands
  out the members is not specified; here it is the order of insertion). A score-ordered
  set is the map from its members to their scores. Commands of the store do not fail.
\<close>

record store =
  assetKeys :: "(jsstring \<times> stored_asset) list"
  assetsIndex :: "jsstring \<rightharpoonup> nat"
  assetsByCollection :: "jsstring \<Rightarrow> jsstring list"
  collectionKeys :: "(jsstring \<times> collection) list"
  collectionsIndex :: "jsstring \<rightharpoonup> nat"
  tagsAll :: "jsstring \<rightharpoonup> int"
  searchWord :: "jsstring \<Rightarrow> jsstring list"

definition emptyStore :: store where
  "emptyStore = \<lparr>assetKeys = [], assetsIndex = Map.empty, assetsByCollection = (\<lambda>_. []),
     collectionKeys = [], collectionsIndex = Map.empty, tagsAll = Map.empty,
     searchWord = (\<lambda>_. [])\<rparr>"

definition sadd :: "'a \<Rightarrow> 'a list \<Rightarrow> 'a list" where
  "sadd x xs = (if x \<in> set xs then xs else xs @ [x])"

definition srem :: "'a \<Rightarrow> 'a list \<Rightarrow> 'a list" where
  "srem x xs = removeAll x xs"

definition sismember :: "'a list \<Rightarrow> 'a \<Rightarrow> bool" where
  "sismember xs x = (x \<in> set xs)"

text \<open>\<open>SINTER k1 k2 ...\<close>: the members of the first set that every other set has.\<close>

fun sinter :: "'a list list \<Rightarrow> 'a list" where
  "sinter [] = []"
| "sinter (xs # xss) = filter (\<lambda>x. \<forall>ys \<in> set xss. x \<in> set ys) xs"

text \<open>\<open>ZINCRBY\<close> creates a missing member with the increment as its score.\<close>

definition zincrby :: "int \<Rightarrow> 'a \<Rightarrow> ('a \<rightharpoonup> int) \<Rightarrow> ('a \<rightharpoonup> int)" where
  "zincrby d k m = m(k \<mapsto> (case m k of None \<Rightarrow> d | Some v \<Rightarrow> v + d))"

text \<open>\<open>ZREMRANGEBYSCORE key -inf 0\<close>\<close>

definition zremrangebyscore :: "('a \<rightharpoonup> int) \<Rightarrow> ('a \<rightharpoonup> int)" where
  "zremrangebyscore m = (\<lambda>k. case m k of None \<Rightarrow> None | Some v \<Rightarrow> if v \<le> 0 then None else Some v)"

text \<open>A batch of \<open>SADD\<close> (or \<open>SREM\<close>) of one member, one command per key of a list.\<close>

definition saddEach :: "'k list \<Rightarrow> 'a \<Rightarrow> ('k \<Rightarrow> 'a list) \<Rightarrow> ('k \<Rightarrow> 'a list)" where
  "saddEach ks x f = fold (\<lambda>k g. g(k := sadd x (g k))) ks f"

definition sremEach :: "'k list \<Rightarrow> 'a \<Rightarrow> ('k \<Rightarrow> 'a list) \<Rightarrow> ('k \<Rightarrow> 'a list)" where
  "sremEach ks x f = fold (\<lambda>k g. g(k := srem x (g k))) ks f"

text \<open>A batch of \<open>ZINCRBY\<close> by the same amount, one command per member of a list.\<close>

definition zincrbyEach :: "int \<Rightarrow> 'a list \<Rightarrow> ('a \<rightharpoonup> int) \<Rightarrow> ('a \<rightharpoonup> int)" where
  "zincrbyEach d ks m = fold (zincrby d) ks m"

section \<open>Search index helpers\<close>

text \<open>
  \<open>extractWords\<close> throws where it spreads \<open>asset.tags\<close> and the property is missing;
  a missing title or description is joined as the empty string. The two index helpers
  call it before they send any command, so a throw leaves the store as it was.
\<close>

definition extractWords :: "(jsstring \<Rightarrow> jsstring) \<Rightarrow> stored_asset \<Rightarrow> jsstring list option" where
  "extractWords lc a =
     (case s_tags a of
        None \<Rightarrow> None
      | Some ts \<Rightarrow>
          (let text = lc (join (str '' '') ([joined (s_title a), joined (s_description a)] @ ts));
               words = matchWords text
           in Some (filter (\<lambda>w. 2 \<le> length w) (uniq words))))"

definition indexAssetForSearch ::
  "(jsstring \<Rightarrow> jsstring) \<Rightarrow> store \<Rightarrow> stored_asset \<Rightarrow> store option" where
  "indexAssetForSearch lc s a =
     (case extractWords lc a of
        None \<Rightarrow> None
      | Some words \<Rightarrow> Some (s\<lparr>searchWord := saddEach words (s_id a) (searchWord s)\<rparr>))"

definition removeAssetFromSearchIndex ::
  "(jsstring \<Rightarrow> jsstring) \<Rightarrow> store \<Rightarrow> stored_asset \<Rightarrow> store option" where
  "removeAssetFromSearchIndex lc s a =
     (case extractWords lc a of
        None \<Rightarrow> None
      | Some words \<Rightarrow> Some (s\<lparr>searchWord := sremEach words (s_id a) (searchWord s)\<rparr>))"

section \<open>Asset CRUD\<close>

text \<open>
  Every function returns what the call gives, \<open>Inr\<close> the value returned and \<open>Inl\<close> the
  error thrown, and the store it leaves: a batch is sent by \<open>pipeline.exec()\<close>, so a
  throw before that line leaves the commands queued so far unsent, while the commands of
  a batch or helper that ran before the throw stay done.

  \<open>createAsset\<close> reads \<open>crypto.randomUUID()\<close> (\<open>uid\<close>), \<open>new Date().toISOString()\<close>
  (\<open>now\<close>) and \<open>Date.now()\<close> (\<open>score\<close>); they are arguments here.
\<close>

definition createAsset ::
  "(jsstring \<Rightarrow> jsstring) \<Rightarrow> store \<Rightarrow> jsstring \<Rightarrow> timestamp \<Rightarrow> nat \<Rightarrow> asset_input
     \<Rightarrow> (error + asset) \<times> store" where
  "createAsset lc s uid now score input =
     (let a = asset_input.extend input (asset.fields uid now now);
          s1 = s\<lparr>assetKeys := AList.update (a_id a) (stored a) (assetKeys s),
                 assetsIndex := (assetsIndex s)(a_id a \<mapsto> score),
                 tagsAll := zincrbyEach 1 (map lc (tags a)) (tagsAll s),
                 assetsByCollection := saddEach (collections a) (a_id a) (assetsByCollection s)\<rparr>
      in case indexAssetForSearch lc s1 (stored a) of
           None \<Rightarrow> (Inl TypeError, s1)
         | Some s2 \<Rightarrow> (Inr a, s2))"

definition getAsset :: "store \<Rightarrow> jsstring \<Rightarrow> stored_asset option" where
  "getAsset s k = map_of (assetKeys s) k"

text \<open>
  The merge \<open>{...existing, ...updates, id: existing.id, createdAt: existing.createdAt,
  updatedAt: now}\<close>.
\<close>

definition mergeAsset :: "stored_asset \<Rightarrow> asset_updates \<Rightarrow> timestamp \<Rightarrow> stored_asset" where
  "mergeAsset existing updates now =
     \<lparr>s_filename = spread (s_filename existing) (u_filename updates),
      s_mimeType = spread (s_mimeType existing) (u_mimeType updates),
      s_fileSize = spread (s_fileSize existing) (u_fileSize updates),
      s_duration = spread (s_duration existing) (u_duration updates),
      s_resolution = spread (s_resolution existing) (u_resolution updates),
      s_codec = spread (s_codec existing) (u_codec updates),
      s_title = spread (s_title existing) (u_title updates),
      s_description = spread (s_description existing) (u_description updates),
      s_tags = spread (s_tags existing) (u_tags updates),
      s_customMeta = spread (s_customMeta existing) (u_customMeta updates),
      s_minioKey = spread (s_minioKey existing) (u_minioKey updates),
      s_proxyKey = spread (s_proxyKey existing) (u_proxyKey updates),
      s_thumbnailKey = spread (s_thumbnailKey existing) (u_thumbnailKey updates),
      s_posterKey = spread (s_posterKey existing) (u_posterKey updates),
      s_proxyStatus = spread (s_proxyStatus existing) (u_proxyStatus updates),
      s_collections = spread (s_collections existing) (u_collections updates),
      s_id = s_id existing,
      s_createdAt = s_createdAt existing,
      s_updatedAt = now\<rparr>"

text \<open>
  \<open>updateAsset\<close>. The old index entries are removed first, by a batch of their own.
  The two tag lists and the four collection lists are computed next, and any of these
  lines throws on a list that is missing; nothing of the main batch is sent then. The
  main batch writes the merged record, the counters and the membership sets. The new
  index entries are written last, and \<open>extractWords\<close> throws there when the merged record
  has no tags, after the main batch is done.
\<close>

definition updateAsset ::
  "(jsstring \<Rightarrow> jsstring) \<Rightarrow> store \<Rightarrow> jsstring \<Rightarrow> asset_updates \<Rightarrow> timestamp
     \<Rightarrow> (error + stored_asset option) \<times> store" where
  "updateAsset lc s k updates now =
     (case getAsset s k of
        None \<Rightarrow> (Inr None, s)
      | Some existing \<Rightarrow>
     (case removeAssetFromSearchIndex lc s existing of
        None \<Rightarrow> (Inl TypeError, s)
      | Some s1 \<Rightarrow>
     (case map_option (map lc) (s_tags existing) of
        None \<Rightarrow> (Inl TypeError, s1)
      | Some oldTags \<Rightarrow>
     (case map_option (map lc) (coalesce (u_tags updates) (s_tags existing)) of
        None \<Rightarrow> (Inl TypeError, s1)
      | Some newTags \<Rightarrow>
          (let merged = mergeAsset existing updates now;
               addedTags = filter (\<lambda>t. t \<notin> set oldTags) newTags;
               removedTags = filter (\<lambda>t. t \<notin> set newTags) oldTags;
               oldCollections = s_collections existing;
               newCollections = coalesce (u_collections updates) (s_collections existing)
           in
     (case Option.bind newCollections
             (filterThrowing (\<lambda>c. map_option Not (includesJs oldCollections c))) of
        None \<Rightarrow> (Inl TypeError, s1)
      | Some addedCollections \<Rightarrow>
     (case Option.bind oldCollections
             (filterThrowing (\<lambda>c. map_option Not (includesJs newCollections c))) of
        None \<Rightarrow> (Inl TypeError, s1)
      | Some removedCollections \<Rightarrow>
          (let s2 = s1\<lparr>assetKeys := AList.update k merged (assetKeys s1),
                       tagsAll := zincrbyEach (- 1) removedTags
                                    (zincrbyEach 1 addedTags (tagsAll s1)),
                       assetsByCollection := sremEach removedCollections k
                                    (saddEach addedCollections k (assetsByCollection s1))\<rparr>
           in case indexAssetForSearch lc s2 merged of
                None \<Rightarrow> (Inl TypeError, s2)
              | Some s3 \<Rightarrow> (Inr (Some merged), s3)))))))))"

text \<open>
  \<open>deleteAsset\<close> iterates the record's tags and then its collections while it queues
  the main batch; the cleanup of the counters follows the batch.
\<close>

definition deleteAsset ::
  "(jsstring \<Rightarrow> jsstring) \<Rightarrow> store \<Rightarrow> jsstring \<Rightarrow> (error + bool) \<times> store" where
  "deleteAsset lc s k =
     (case getAsset s k of
        None \<Rightarrow> (Inr False, s)
      | Some a \<Rightarrow>
     (case removeAssetFromSearchIndex lc s a of
        None \<Rightarrow> (Inl TypeError, s)
      | Some s1 \<Rightarrow>
     (case s_tags a of
        None \<Rightarrow> (Inl TypeError, s1)
      | Some ts \<Rightarrow>
     (case s_collections a of
        None \<Rightarrow> (Inl TypeError, s1)
      | Some cs \<Rightarrow>
          (let s2 = s1\<lparr>assetKeys := AList.delete k (assetKeys s1),
                       assetsIndex := (assetsIndex s1)(k := None),
                       tagsAll := zincrbyEach (- 1) (map lc ts) (tagsAll s1),
                       assetsByCollection := sremEach cs k (assetsByCollection s1)\<rparr>
           in (Inr True, s2\<lparr>tagsAll := zremrangebyscore (tagsAll s2)\<rparr>))))))"

section \<open>Search\<close>





section \<open>Collection CRUD\<close>

definition createCollection ::
  "store \<Rightarrow> jsstring \<Rightarrow> timestamp \<Rightarrow> nat \<Rightarrow> jsstring \<Rightarrow> jsstring option \<Rightarrow> collection \<times> store" where
  "createCollection s uid now score name descr =
     (let c = \<lparr>c_id = uid, c_name = name,
                c_description = (case descr of None \<Rightarrow> [] | Some d \<Rightarrow> d),
                coverAssetId = None, assetCount = 0, c_createdAt = now, c_updatedAt = now\<rparr>
      in (c, s\<lparr>collectionKeys := AList.update (c_id c) c (collectionKeys s),
                collectionsIndex := (collectionsIndex s)(c_id c \<mapsto> score)\<rparr>))"

definition getCollection :: "store \<Rightarrow> jsstring \<Rightarrow> collection option" where
  "getCollection s k = map_of (collectionKeys s) k"

definition mergeCollection :: "collection \<Rightarrow> collection_updates \<Rightarrow> timestamp \<Rightarrow> collection" where
  "mergeCollection existing updates now =
     \<lparr>c_id = c_id existing,
      c_name = spread (c_name existing) (uc_name updates),
      c_description = spread (c_description existing) (uc_description updates),
      coverAssetId = spread (coverAssetId existing) (uc_coverAssetId updates),
      assetCount = spread (assetCount existing) (uc_assetCount updates),
      c_createdAt = c_createdAt existing,
      c_updatedAt = now\<rparr>"

definition updateCollection ::
  "store \<Rightarrow> jsstring \<Rightarrow> collection_updates \<Rightarrow> timestamp \<Rightarrow> collection option \<times> store" where
  "updateCollection s k updates now =
     (case getCollection s k of
        None \<Rightarrow> (None, s)
      | Some existing \<Rightarrow>
          (let merged = mergeCollection existing updates now
           in (Some merged, s\<lparr>collectionKeys := AList.update k merged (collectionKeys s)\<rparr>)))"

text \<open>
  \<open>deleteCollection\<close>: the first batch deletes the three keys of the collection and
  reads every member's record. The loop then queues one write per record that was read,
  and the second batch is sent after the loop: a round that throws, on a record without
  \<open>collections\<close>, leaves every write unsent. \<open>clock i\<close> is the clock as the \<open>i\<close>-th
  round of the loop reads it. A round whose read found nothing is skipped. The record is
  written under its own \<open>id\<close>. \<open>rewriteMember\<close> is one round, on the store as the
  writes queued so far will leave it.
\<close>

definition rewriteMember ::
  "jsstring \<Rightarrow> (nat \<Rightarrow> timestamp) \<Rightarrow> store \<Rightarrow> nat \<times> stored_asset option \<Rightarrow> store option" where
  "rewriteMember cid clock st ir =
     (case snd ir of
        None \<Rightarrow> Some st
      | Some a \<Rightarrow>
          (case s_collections a of
             None \<Rightarrow> None
           | Some cs \<Rightarrow>
               Some (st\<lparr>assetKeys :=
                 AList.update (s_id a)
                   (a\<lparr>s_collections := Some (filter (\<lambda>c. c \<noteq> cid) cs),
                      s_updatedAt := clock (fst ir)\<rparr>)
                   (assetKeys st)\<rparr>)))"

definition deleteCollection ::
  "store \<Rightarrow> jsstring \<Rightarrow> (nat \<Rightarrow> timestamp) \<Rightarrow> (error + bool) \<times> store" where
  "deleteCollection s cid clock =
     (case getCollection s cid of
        None \<Rightarrow> (Inr False, s)
      | Some c \<Rightarrow>
          (let assetIds = assetsByCollection s cid;
               s1 = s\<lparr>collectionKeys := AList.delete cid (collectionKeys s),
                      collectionsIndex := (collectionsIndex s)(cid := None),
                      assetsByCollection := (assetsByCollection s)(cid := [])\<rparr>;
               results = map (getAsset s1) assetIds
           in if assetIds \<noteq> []
              then (case fold (\<lambda>ir st. Option.bind st (\<lambda>st'. rewriteMember cid clock st' ir))
                           (zip [0 ..< length assetIds] results) (Some s1) of
                      None \<Rightarrow> (Inl TypeError, s1)
                    | Some s2 \<Rightarrow> (Inr True, s2))
              else (Inr True, s1)))"

section \<open>Collection-asset relationships\<close>

text \<open>
  Both functions return nothing or throw: the result is the error or the store they
  leave, and a call that throws has sent no command. The two clock readings are those of
  the asset's and of the collection's \<open>updatedAt\<close>.
\<close>

definition addAssetToCollection ::
  "store \<Rightarrow> jsstring \<Rightarrow> jsstring \<Rightarrow> timestamp \<Rightarrow> timestamp \<Rightarrow> error + store" where
  "addAssetToCollection s collectionId assetId now1 now2 =
     (case getCollection s collectionId of
        None \<Rightarrow> Inl (CollectionNotFound collectionId)
      | Some c \<Rightarrow>
          (case getAsset s assetId of
             None \<Rightarrow> Inl (AssetNotFound assetId)
           | Some a \<Rightarrow>
               if sismember (assetsByCollection s collectionId) assetId then Inr s
               else
                 (case s_collections a of
                    None \<Rightarrow> Inl TypeError
                  | Some cs \<Rightarrow> Inr (s\<lparr>
                      assetsByCollection := (assetsByCollection s)
                        (collectionId := sadd assetId (assetsByCollection s collectionId)),
                      assetKeys := AList.update assetId
                        (a\<lparr>s_collections := Some (cs @ [collectionId]), s_updatedAt := now1\<rparr>)
                        (assetKeys s),
                      collectionKeys := AList.update collectionId
                        (c\<lparr>assetCount := assetCount c + 1, c_updatedAt := now2\<rparr>)
                        (collectionKeys s)\<rparr>))))"

definition removeAssetFromCollection ::
  "store \<Rightarrow> jsstring \<Rightarrow> jsstring \<Rightarrow> timestamp \<Rightarrow> timestamp \<Rightarrow> error + store" where
  "removeAssetFromCollection s collectionId assetId now1 now2 =
     (case getCollection s collectionId of
        None \<Rightarrow> Inl (CollectionNotFound collectionId)
      | Some c \<Rightarrow>
          (case getAsset s assetId of
             None \<Rightarrow> Inl (AssetNotFound assetId)
           | Some a \<Rightarrow>
               if \<not> sismember (assetsByCollection s collectionId) assetId then Inr s
               else
                 (case s_collections a of
                    None \<Rightarrow> Inl TypeError
                  | Some cs \<Rightarrow> Inr (s\<lparr>
                      assetsByCollection := (assetsByCollection s)
                        (collectionId := srem assetId (assetsByCollection s collectionId)),
                      assetKeys := AList.update assetId
                        (a\<lparr>s_collections := Some (filter (\<lambda>x. x \<noteq> collectionId) cs),
                           s_updatedAt := now1\<rparr>)
                        (assetKeys s),
                      collectionKeys := AList.update collectionId
                        (c\<lparr>assetCount := max 0 (assetCount c - 1), c_updatedAt := now2,
                           coverAssetId :=
                             (if coverAssetId c = Some assetId then None else coverAssetId c)\<rparr>)
                        (collectionKeys s)\<rparr>))))"

section \<open>Sequences of operations\<close>

text \<open>
  One call of a mutating function of \<open>metadata.ts\<close>, with what it reads from the
  environment (fresh identifier, clock), and the store that the call leaves, whether it
  returns or throws. \<open>freshStep\<close> says that the identifier a create call draws is not the
  identifier of a live entity, which is what \<open>crypto.randomUUID()\<close> is relied on for.
\<close>

datatype op =
    CreateAsset jsstring timestamp nat asset_input
  | UpdateAsset jsstring asset_updates timestamp
  | DeleteAsset jsstring
  | CreateCollection jsstring timestamp nat jsstring "jsstring option"
  | UpdateCollection jsstring collection_updates timestamp
  | DeleteCollection jsstring "nat \<Rightarrow> timestamp"
  | AddAssetToCollection jsstring jsstring timestamp timestamp
  | RemoveAssetFromCollection jsstring jsstring timestamp timestamp

fun step :: "(jsstring \<Rightarrow> jsstring) \<Rightarrow> store \<Rightarrow> op \<Rightarrow> store" where
  "step lc s (CreateAsset uid now score input) = snd (createAsset lc s uid now score input)"
| "step lc s (UpdateAsset k updates now) = snd (updateAsset lc s k updates now)"
| "step lc s (DeleteAsset k) = snd (deleteAsset lc s k)"
| "step lc s (CreateCollection uid now score name descr) =
     snd (createCollection s uid now score name descr)"
| "step lc s (UpdateCollection k updates now) = snd (updateCollection s k updates now)"
| "step lc s (DeleteCollection k clock) = snd (deleteCollection s k clock)"
| "step lc s (AddAssetToCollection c a now1 now2) =
     (case addAssetToCollection s c a now1 now2 of Inl e \<Rightarrow> s | Inr s' \<Rightarrow> s')"
| "step lc s (RemoveAssetFromCollection c a now1 now2) =
     (case removeAssetFromCollection s c a now1 now2 of Inl e \<Rightarrow> s | Inr s' \<Rightarrow> s')"

fun freshStep :: "store \<Rightarrow> op \<Rightarrow> bool" where
  "freshStep s (CreateAsset uid now score input) = (getAsset s uid = None)"
| "freshStep s (CreateCollection uid now score name descr) = (getCollection s uid = None)"
| "freshStep s _ = True"

fun run :: "(jsstring \<Rightarrow> jsstring) \<Rightarrow> store \<Rightarrow> op list \<Rightarrow> store" where
  "run lc s [] = s"
| "run lc s (x # xs) = run lc (step lc s x) xs"

fun freshRun :: "(jsstring \<Rightarrow> jsstring) \<Rightarrow> store \<Rightarrow> op list \<Rightarrow> bool" where
  "freshRun lc s [] = True"
| "freshRun lc s (x # xs) = (freshStep s x \<and> freshRun lc (step lc s x) xs)"

section \<open>Transcoding jobs (osc.ts)\<close>

text \<open>
  What the job platform does with one job is given from outside: whether creating the
  instance throws, and for the \<open>k\<close>-th status query what it returns and how long the
  round takes beyond the poll interval (\<open>queryMs\<close>: the duration of the query, and any
  lateness of the timer). A query throws, finds no instance, or finds an instance whose
  \<open>status\<close> may be missing.
\<close>

datatype create_result = CreateThrows | Created "jsstring option"

datatype query_result = QueryThrows | NoInstance | Instance "jsstring option"

record job =
  creation :: create_result
  queries :: "nat \<Rightarrow> query_result"
  queryMs :: "nat \<Rightarrow> nat"

datatype job_error = InvalidJobName | CreationFailed | FilenameRequired

definition DEFAULT_FFMPEG_MAX_WAIT_MS :: int where
  "DEFAULT_FFMPEG_MAX_WAIT_MS = 5 * 60 * 1000"

definition FFMPEG_POLL_INTERVAL_MS :: nat where
  "FFMPEG_POLL_INTERVAL_MS = 2000"

text \<open>The name test \<open>/^[a-z0-9]+$/\<close>.\<close>

definition lowerAlnum :: "nat \<Rightarrow> bool" where
  "lowerAlnum c = ((97 \<le> c \<and> c \<le> 122) \<or> (48 \<le> c \<and> c \<le> 57))"

definition validJobName :: "jsstring \<Rightarrow> bool" where
  "validJobName n = (n \<noteq> [] \<and> list_all lowerAlnum n)"

text \<open>The result is \<open>{ name, status }\<close>.\<close>

definition createFfmpegJob :: "job \<Rightarrow> jsstring \<Rightarrow> job_error + jsstring \<times> jsstring" where
  "createFfmpegJob j jobName =
     (if \<not> validJobName jobName then Inl InvalidJobName
      else case creation j of
             CreateThrows \<Rightarrow> Inl CreationFailed
           | Created st \<Rightarrow> Inr (jobName, (case st of None \<Rightarrow> str ''Running'' | Some v \<Rightarrow> v)))"

definition getFfmpegJobStatus :: "query_result \<Rightarrow> jsstring" where
  "getFfmpegJobStatus q =
     (case q of
        QueryThrows \<Rightarrow> str ''unknown''
      | NoInstance \<Rightarrow> str ''unknown''
      | Instance st \<Rightarrow> (case st of None \<Rightarrow> str ''unknown'' | Some v \<Rightarrow> v))"

definition terminalStatuses :: "jsstring list" where
  "terminalStatuses = [str ''Complete'', str ''Failed'', str ''Error'']"

text \<open>
  The loop of \<open>waitForFfmpegJob\<close>, entered for the \<open>k\<close>-th time when \<open>elapsed\<close>
  milliseconds have passed since \<open>startTime\<close>. Between two tests of the loop condition
  the clock advances by the poll interval that the loop sleeps and by \<open>queryMs\<close>, so
  the loop ends: the function is total.
\<close>

function waitLoop :: "job \<Rightarrow> int \<Rightarrow> nat \<Rightarrow> nat \<Rightarrow> jsstring" where
  "waitLoop j maxWaitMs k elapsed =
     (if int elapsed < maxWaitMs
      then (let status = getFfmpegJobStatus (queries j k)
            in if status \<in> set terminalStatuses then status
               else waitLoop j maxWaitMs (Suc k) (elapsed + queryMs j k + FFMPEG_POLL_INTERVAL_MS))
      else str ''timeout'')"
  by pat_completeness auto
termination
  by (relation "measure (\<lambda>(j, maxWaitMs, k, elapsed). nat (maxWaitMs - int elapsed))")
     (auto simp: FFMPEG_POLL_INTERVAL_MS_def)

declare waitLoop.simps [simp del]

definition waitForFfmpegJob :: "job \<Rightarrow> int \<Rightarrow> jsstring" where
  "waitForFfmpegJob j maxWaitMs = waitLoop j maxWaitMs 0 0"

text \<open>\<open>n.toString(36)\<close> for a natural number, and \<open>generateFfmpegJobName\<close>.\<close>

definition digit36 :: "nat \<Rightarrow> nat" where
  "digit36 d = (if d < 10 then 48 + d else 87 + d)"

function toString36 :: "nat \<Rightarrow> jsstring" where
  "toString36 n = (if n < 36 then [digit36 n] else toString36 (n div 36) @ [digit36 (n mod 36)])"
  by pat_completeness auto
termination
  by (relation "measure (\<lambda>n. n)") auto

declare toString36.simps [simp del]

definition generateFfmpegJobName :: "(jsstring \<Rightarrow> jsstring) \<Rightarrow> jsstring \<Rightarrow> nat \<Rightarrow> jsstring" where
  "generateFfmpegJobName lc pre nowMs = filter lowerAlnum (lc pre) @ toString36 nowMs"

section \<open>Object keys (storage.ts)\<close>

datatype object_type = Original | Proxy | Thumbnail | Poster

definition BUCKET :: jsstring where
  "BUCKET = str ''media-assets''"

definition PREFIXES :: "object_type \<Rightarrow> jsstring" where
  "PREFIXES ty =
     (case ty of Original \<Rightarrow> str ''originals'' | Proxy \<Rightarrow> str ''proxies''
      | Thumbnail \<Rightarrow> str ''thumbnails'' | Poster \<Rightarrow> str ''posters'')"

definition defaultNames :: "object_type \<Rightarrow> jsstring option" where
  "defaultNames ty =
     (case ty of Original \<Rightarrow> None | Proxy \<Rightarrow> Some (str ''proxy.mp4'')
      | Thumbnail \<Rightarrow> Some (str ''thumb.jpg'') | Poster \<Rightarrow> Some (str ''poster.jpg''))"

text \<open>\<open>getS3Uri\<close> throws when the resolved file name is missing or the empty string.\<close>

definition getS3Uri :: "jsstring \<Rightarrow> object_type \<Rightarrow> jsstring option \<Rightarrow> job_error + jsstring" where
  "getS3Uri assetId ty fname =
     (let resolvedFilename = (case fname of None \<Rightarrow> defaultNames ty | Some f \<Rightarrow> Some f)
      in case resolvedFilename of
           None \<Rightarrow> Inl FilenameRequired
         | Some f \<Rightarrow>
             if f = [] then Inl FilenameRequired
             else Inr (str ''s3://'' @ BUCKET @ str ''/'' @ PREFIXES ty @ str ''/'' @ assetId
                       @ str ''/'' @ f))"

section \<open>The derived-artifact pipeline (triggerProxyGeneration)\<close>

text \<open>
  The environment of one run: the two jobs, the clock as \<open>generateFfmpegJobName\<close> reads
  it for each, and the clock as the first, the second and the third call of
  \<open>updateAsset\<close> read it (\<open>lastUpdateAt\<close> is the second: a run in which no call of
  \<open>updateAsset\<close> throws makes one call for an asset that is not a video and two for a
  video). \<open>removeFfmpegJob\<close> never throws and touches no state of the model. The asset
  passed in is the object that \<open>createAsset\<close> returned. The call for an asset that is
  not a video is outside the \<open>try\<close> block, so what it throws leaves the function. The
  handler of the \<open>try\<close> block is \<open>catchHandler\<close>, which swallows what its own call of
  \<open>updateAsset\<close> throws; the body throws where \<open>getS3Uri\<close>, \<open>createFfmpegJob\<close> or
  \<open>updateAsset\<close> does. \<open>tryUpdate\<close> is a second call of \<open>updateAsset\<close> in the body,
  with the handler behind it.
\<close>

record pipeline_env =
  proxyJob :: job
  thumbJob :: job
  proxyNameMs :: nat
  thumbNameMs :: nat
  firstUpdateAt :: timestamp
  lastUpdateAt :: timestamp
  thirdUpdateAt :: timestamp

definition catchHandler ::
  "(jsstring \<Rightarrow> jsstring) \<Rightarrow> store \<Rightarrow> asset \<Rightarrow> timestamp \<Rightarrow> store" where
  "catchHandler lc s a now =
     snd (updateAsset lc s (a_id a) (noUpdates\<lparr>u_proxyStatus := Some (Some Failed)\<rparr>) now)"

definition tryUpdate ::
  "(jsstring \<Rightarrow> jsstring) \<Rightarrow> pipeline_env \<Rightarrow> store \<Rightarrow> asset \<Rightarrow> asset_updates \<Rightarrow> store" where
  "tryUpdate lc env s a updates =
     (case updateAsset lc s (a_id a) updates (lastUpdateAt env) of
        (Inl e, s') \<Rightarrow> catchHandler lc s' a (thirdUpdateAt env)
      | (Inr r, s') \<Rightarrow> s')"

definition markFailed :: "(jsstring \<Rightarrow> jsstring) \<Rightarrow> pipeline_env \<Rightarrow> store \<Rightarrow> asset \<Rightarrow> store" where
  "markFailed lc env s a = catchHandler lc s a (lastUpdateAt env)"

definition triggerProxyGeneration ::
  "(jsstring \<Rightarrow> jsstring) \<Rightarrow> pipeline_env \<Rightarrow> store \<Rightarrow> asset \<Rightarrow> (error + unit) \<times> store" where
  "triggerProxyGeneration lc env s a =
     (if \<not> startsWith (mimeType a) (str ''video/'')
      then (case updateAsset lc s (a_id a) (noUpdates\<lparr>u_proxyStatus := Some (Some NoProxy)\<rparr>)
                   (firstUpdateAt env) of
              (Inl e, s') \<Rightarrow> (Inl e, s')
            | (Inr r, s') \<Rightarrow> (Inr (), s'))
      else
        (Inr (),
         case updateAsset lc s (a_id a) (noUpdates\<lparr>u_proxyStatus := Some (Some Processing)\<rparr>)
                (firstUpdateAt env) of
           (Inl e, s1) \<Rightarrow> markFailed lc env s1 a
         | (Inr r, s1) \<Rightarrow>
          (case getS3Uri (a_id a) Original (Some (filename a)) of
             Inl e \<Rightarrow> markFailed lc env s1 a
           | Inr inputUri \<Rightarrow>
          (case getS3Uri (a_id a) Proxy None of
             Inl e \<Rightarrow> markFailed lc env s1 a
           | Inr proxyUri \<Rightarrow>
          (case getS3Uri (a_id a) Thumbnail None of
             Inl e \<Rightarrow> markFailed lc env s1 a
           | Inr thumbUri \<Rightarrow>
          (case createFfmpegJob (proxyJob env)
                  (generateFfmpegJobName lc (str ''proxy'') (proxyNameMs env)) of
             Inl e \<Rightarrow> markFailed lc env s1 a
           | Inr created \<Rightarrow>
               let proxyStatus = waitForFfmpegJob (proxyJob env) DEFAULT_FFMPEG_MAX_WAIT_MS
               in if proxyStatus \<noteq> str ''Complete''
                  then tryUpdate lc env s1 a (noUpdates\<lparr>u_proxyStatus := Some (Some Failed)\<rparr>)
                  else
                    (case createFfmpegJob (thumbJob env)
                            (generateFfmpegJobName lc (str ''thumb'') (thumbNameMs env)) of
                       Inl e \<Rightarrow> markFailed lc env s1 a
                     | Inr created' \<Rightarrow>
                         let thumbStatus =
                               waitForFfmpegJob (thumbJob env) DEFAULT_FFMPEG_MAX_WAIT_MS;
                             updates = noUpdates\<lparr>
                               u_proxyKey :=
                                 Some (Some (str ''proxies/'' @ a_id a @ str ''/proxy.mp4'')),
                               u_proxyStatus := Some (Some Ready)\<rparr>;
                             updates' =
                               (if thumbStatus = str ''Complete''
                                then updates\<lparr>u_thumbnailKey :=
                                  Some (Some (str ''thumbnails/'' @ a_id a @ str ''/thumb.jpg''))\<rparr>
                                else updates)
                         in tryUpdate lc env s1 a updates')))))))"

section \<open>Example data\<close>

text \<open>A store with one collection and one asset, an update, and a job that the platform
  reports as complete at the third query, after a query that throws.\<close>

definition exInput :: asset_input where
  "exInput = \<lparr>filename = str ''bbb.mp4'', mimeType = str ''video/mp4'', fileSize = 158008374,
     duration = Some 596, resolution = Some (str ''1920x1080''), codec = None,
     title = str ''Big Buck Bunny'', description = [], tags = [str ''animation'', str ''Demo''],
     customMeta = [], minioKey = str ''originals/a1/bbb.mp4'', proxyKey = None,
     thumbnailKey = None, posterKey = None, proxyStatus = Pending, collections = []\<rparr>"

definition exAsset :: asset where
  "exAsset = asset_input.extend exInput (asset.fields (str ''a1'') 20 20)"

definition exOps :: "op list" where
  "exOps = [CreateCollection (str ''c1'') 10 10 (str ''Films'') None,
            CreateAsset (str ''a1'') 20 20 exInput]"

definition exStore :: store where
  "exStore = run asciiLower emptyStore exOps"

definition exUpdates :: asset_updates where
  "exUpdates = noUpdates\<lparr>u_title := Some (Some (str ''Sintel'')), u_id := Some (str ''zz'')\<rparr>"

definition exJob :: job where
  "exJob = \<lparr>creation = Created None,
     queries = (\<lambda>k. if k = 0 then QueryThrows
                    else if k = 1 then Instance (Some (str ''Running''))
                    else Instance (Some (str ''Complete''))),
     queryMs = (\<lambda>k. 5)\<rparr>"

text \<open>A store in which an asset is a member of a collection whose count is zero (the
  asset was created with the collection in its \<open>collections\<close>), and calls on it.\<close>

definition exMemberOps :: "op list" where
  "exMemberOps = [CreateCollection (str ''c1'') 10 10 (str ''Films'') None,
                  CreateAsset (str ''a2'') 20 20 (exInput\<lparr>collections := [str ''c1'']\<rparr>)]"

definition exMemberStore :: store where
  "exMemberStore = run asciiLower emptyStore exMemberOps"

definition exCollection :: collection where
  "exCollection = \<lparr>c_id = str ''c1'', c_name = str ''Films'', c_description = [],
     coverAssetId = None, assetCount = 0, c_createdAt = 10, c_updatedAt = 10\<rparr>"

definition exCalls :: "op list" where
  "exCalls = [RemoveAssetFromCollection (str ''c1'') (str ''a2'') 30 31,
              RemoveAssetFromCollection (str ''c1'') (str ''a2'') 32 33,
              AddAssetToCollection (str ''c1'') (str ''a2'') 34 35,
              RemoveAssetFromCollection (str ''c9'') (str ''a2'') 36 37]"

section \<open>Records that have their lists\<close>

text \<open>
  The tags, the collections and the indexed words of a stored record, read as the empty
  list where the record has no such list; the lemmas below use them on records that
  have their lists. \<open>listsDefined\<close> is an update that supplies neither \<open>tags\<close> nor
  \<open>collections\<close> as \<open>undefined\<close>.
\<close>

definition tagsOf :: "stored_asset \<Rightarrow> jsstring list" where
  "tagsOf a = (case s_tags a of None \<Rightarrow> [] | Some ts \<Rightarrow> ts)"

definition collectionsOf :: "stored_asset \<Rightarrow> jsstring list" where
  "collectionsOf a = (case s_collections a of None \<Rightarrow> [] | Some cs \<Rightarrow> cs)"

definition wordsOf :: "(jsstring \<Rightarrow> jsstring) \<Rightarrow> stored_asset \<Rightarrow> jsstring list" where
  "wordsOf lc a = (case extractWords lc a of None \<Rightarrow> [] | Some ws \<Rightarrow> ws)"

definition listsDefined :: "asset_updates \<Rightarrow> bool" where
  "listsDefined updates = (u_tags updates \<noteq> Some None \<and> u_collections updates \<noteq> Some None)"

lemma filterThrowing_total: "filterThrowing (\<lambda>x. Some (p x)) xs = Some (filter p xs)"
  by (induction xs) simp_all

lemma filterThrowing_undefined:
  "filterThrowing (\<lambda>x. None) xs = (if xs = [] then Some [] else None)"
  by (cases xs) simp_all

lemma extractWords_None: "(extractWords lc a = None) = (s_tags a = None)"
  by (simp add: extractWords_def Let_def split: option.splits)

lemma extractWords_noTags: "s_tags a = None \<Longrightarrow> extractWords lc a = None"
  by (simp add: extractWords_None)

lemma extractWords_wordsOf: "s_tags a = Some ts \<Longrightarrow> extractWords lc a = Some (wordsOf lc a)"
  by (cases "extractWords lc a") (simp_all add: wordsOf_def extractWords_None)

lemma s_tags_tagsOf: "s_tags a = Some ts \<Longrightarrow> tagsOf a = ts"
  by (simp add: tagsOf_def)

lemma s_collections_collectionsOf: "s_collections a = Some cs \<Longrightarrow> collectionsOf a = cs"
  by (simp add: collectionsOf_def)

lemma stored_fields [simp]:
  "s_id (stored a) = a_id a" "s_tags (stored a) = Some (tags a)"
  "s_collections (stored a) = Some (collections a)" "s_mimeType (stored a) = Some (mimeType a)"
  "s_createdAt (stored a) = createdAt a" "s_updatedAt (stored a) = updatedAt a"
  by (simp_all add: stored_def)

lemma typed_stored: "typed (stored a) = Some a"
  by (simp add: typed_def complete_def stored_def)

lemma mergeAsset_fixed [simp]:
  "s_id (mergeAsset existing updates now) = s_id existing"
  "s_createdAt (mergeAsset existing updates now) = s_createdAt existing"
  "s_updatedAt (mergeAsset existing updates now) = now"
  by (simp_all add: mergeAsset_def)

lemma mergeAsset_lists:
  "s_tags (mergeAsset existing updates now) = spread (s_tags existing) (u_tags updates)"
  "s_collections (mergeAsset existing updates now)
     = spread (s_collections existing) (u_collections updates)"
  by (simp_all add: mergeAsset_def)

lemma coalesce_Some: "\<exists>v. coalesce u (Some x) = Some v"
  by (simp add: coalesce_def split: option.splits)

lemma spread_coalesce:
  "u \<noteq> Some None \<Longrightarrow> spread old u = coalesce u old"
  by (simp add: spread_def coalesce_def split: option.splits)

section \<open>What each call leaves\<close>

subsection \<open>createAsset\<close>

lemma createAsset_effect:
  "fst (createAsset lc s uid now score input)
     = Inr (asset_input.extend input (asset.fields uid now now))
   \<and> assetKeys (snd (createAsset lc s uid now score input))
     = AList.update uid (stored (asset_input.extend input (asset.fields uid now now))) (assetKeys s)
   \<and> assetsIndex (snd (createAsset lc s uid now score input)) = (assetsIndex s)(uid \<mapsto> score)
   \<and> tagsAll (snd (createAsset lc s uid now score input))
     = zincrbyEach 1 (map lc (tags input)) (tagsAll s)
   \<and> assetsByCollection (snd (createAsset lc s uid now score input))
     = saddEach (collections input) uid (assetsByCollection s)
   \<and> searchWord (snd (createAsset lc s uid now score input))
     = saddEach (wordsOf lc (stored (asset_input.extend input (asset.fields uid now now)))) uid
         (searchWord s)
   \<and> collectionKeys (snd (createAsset lc s uid now score input)) = collectionKeys s
   \<and> collectionsIndex (snd (createAsset lc s uid now score input)) = collectionsIndex s"
proof -
  let ?a = "asset_input.extend input (asset.fields uid now now)"
  have w: "extractWords lc (stored ?a) = Some (wordsOf lc (stored ?a))"
    by (rule extractWords_wordsOf [of _ "tags ?a"]) simp
  have f: "a_id ?a = uid" "tags ?a = tags input" "collections ?a = collections input"
    by (simp_all add: asset_input.defs asset.defs)
  show ?thesis
    by (simp add: createAsset_def Let_def indexAssetForSearch_def w f)
qed

lemma fst_createAsset:
  "fst (createAsset lc s uid now score input)
     = Inr (asset_input.extend input (asset.fields uid now now))"
  by (simp add: createAsset_effect)

lemma getAsset_createAsset:
  "getAsset (snd (createAsset lc s uid now score input)) k =
     (if k = uid then Some (stored (asset_input.extend input (asset.fields uid now now)))
      else getAsset s k)"
  by (simp add: getAsset_def createAsset_effect update_conv')

lemma getCollection_createAsset [simp]:
  "getCollection (snd (createAsset lc s uid now score input)) k = getCollection s k"
  by (simp add: getCollection_def createAsset_effect)

lemma getCollection_createCollection:
  "getCollection (snd (createCollection s uid now score name descr)) k =
     (if k = uid then Some (fst (createCollection s uid now score name descr))
      else getCollection s k)"
  by (simp add: createCollection_def Let_def getCollection_def update_conv')

lemma fst_createCollection:
  "fst (createCollection s uid now score name descr)
     = \<lparr>c_id = uid, c_name = name, c_description = (case descr of None \<Rightarrow> [] | Some d \<Rightarrow> d),
        coverAssetId = None, assetCount = 0, c_createdAt = now, c_updatedAt = now\<rparr>"
  by (simp add: createCollection_def Let_def)

lemma exStore_asset: "getAsset exStore (str ''a1'') = Some (stored exAsset)"
  by (simp add: exStore_def exOps_def getAsset_createAsset exAsset_def)

lemma exStore_collection: "getCollection exStore (str ''c1'') \<noteq> None"
  by (simp add: exStore_def exOps_def getCollection_createCollection)

lemma exMemberStore_collection: "getCollection exMemberStore (str ''c1'') = Some exCollection"
  by (simp add: exMemberStore_def exMemberOps_def getCollection_createCollection
        fst_createCollection exCollection_def)

lemma exMemberStore_asset:
  "getAsset exMemberStore (str ''a2'')
     = Some (stored (asset_input.extend (exInput\<lparr>collections := [str ''c1'']\<rparr>)
                       (asset.fields (str ''a2'') 20 20)))"
  by (simp add: exMemberStore_def exMemberOps_def getAsset_createAsset)

lemma exMemberStore_member:
  "sismember (assetsByCollection exMemberStore (str ''c1'')) (str ''a2'')"
  by (simp add: exMemberStore_def exMemberOps_def createAsset_effect createCollection_def Let_def
        sismember_def saddEach_def sadd_def exInput_def emptyStore_def)

subsection \<open>updateAsset\<close>

lemma updateAsset_None [simp]:
  "getAsset s k = None \<Longrightarrow> updateAsset lc s k updates now = (Inr None, s)"
  by (simp add: updateAsset_def)

text \<open>The call returns when the stored record has its two lists and the update does not
  supply \<open>tags\<close> as \<open>undefined\<close>.\<close>

lemma updateAsset_effect:
  assumes "getAsset s k = Some existing"
    and "s_tags existing = Some ets" and "s_collections existing = Some ecs"
    and "u_tags updates \<noteq> Some None"
  shows "fst (updateAsset lc s k updates now) = Inr (Some (mergeAsset existing updates now))
   \<and> assetKeys (snd (updateAsset lc s k updates now))
     = AList.update k (mergeAsset existing updates now) (assetKeys s)
   \<and> assetsIndex (snd (updateAsset lc s k updates now)) = assetsIndex s
   \<and> tagsAll (snd (updateAsset lc s k updates now))
     = zincrbyEach (- 1)
         (filter (\<lambda>t. t \<notin> set (map lc (tagsOf (mergeAsset existing updates now)))) (map lc ets))
         (zincrbyEach 1
            (filter (\<lambda>t. t \<notin> set (map lc ets)) (map lc (tagsOf (mergeAsset existing updates now))))
            (tagsAll s))
   \<and> assetsByCollection (snd (updateAsset lc s k updates now))
     = sremEach (filter (\<lambda>c. c \<notin> set (the (coalesce (u_collections updates) (Some ecs)))) ecs) k
         (saddEach (filter (\<lambda>c. c \<notin> set ecs) (the (coalesce (u_collections updates) (Some ecs)))) k
            (assetsByCollection s))
   \<and> searchWord (snd (updateAsset lc s k updates now))
     = saddEach (wordsOf lc (mergeAsset existing updates now)) (s_id existing)
         (sremEach (wordsOf lc existing) (s_id existing) (searchWord s))
   \<and> collectionKeys (snd (updateAsset lc s k updates now)) = collectionKeys s
   \<and> collectionsIndex (snd (updateAsset lc s k updates now)) = collectionsIndex s"
proof -
  let ?m = "mergeAsset existing updates now"
  obtain nts where nts: "coalesce (u_tags updates) (Some ets) = Some nts"
    using coalesce_Some [of "u_tags updates" ets] by auto
  obtain ncs where ncs: "coalesce (u_collections updates) (Some ecs) = Some ncs"
    using coalesce_Some [of "u_collections updates" ecs] by auto
  have mt: "s_tags ?m = Some nts"
    using assms(2,4) nts by (simp add: mergeAsset_lists spread_coalesce)
  have w0: "extractWords lc existing = Some (wordsOf lc existing)"
    using assms(2) by (rule extractWords_wordsOf)
  have w1: "extractWords lc ?m = Some (wordsOf lc ?m)"
    using mt by (rule extractWords_wordsOf)
  have t: "tagsOf ?m = nts" using mt by (rule s_tags_tagsOf)
  show ?thesis
    using assms(1)
    by (simp add: updateAsset_def Let_def removeAssetFromSearchIndex_def indexAssetForSearch_def
          w0 w1 t assms(2,3) nts ncs includesJs_def filterThrowing_total getAsset_def)
qed

text \<open>The call throws, with the old index entries removed and nothing else done, when the
  stored record has its tags and not its collections.\<close>

lemma updateAsset_noCollections:
  assumes "getAsset s k = Some existing"
    and "s_tags existing = Some ets" and "s_collections existing = None"
  shows "updateAsset lc s k updates now
     = (Inl TypeError, s\<lparr>searchWord := sremEach (wordsOf lc existing) (s_id existing) (searchWord s)\<rparr>)"
proof -
  have w0: "extractWords lc existing = Some (wordsOf lc existing)"
    using assms(2) by (rule extractWords_wordsOf)
  obtain nts where nts: "coalesce (u_tags updates) (Some ets) = Some nts"
    using coalesce_Some [of "u_tags updates" ets] by auto
  show ?thesis
    using assms(1)
    by (simp add: updateAsset_def Let_def removeAssetFromSearchIndex_def w0 assms(2,3) nts
          includesJs_def filterThrowing_undefined split: option.splits)
qed

text \<open>The call throws and does nothing when the stored record has no tags.\<close>

lemma updateAsset_noTags:
  assumes "getAsset s k = Some existing" and "s_tags existing = None"
  shows "updateAsset lc s k updates now = (Inl TypeError, s)"
proof -
  show ?thesis
    using assms by (simp add: updateAsset_def removeAssetFromSearchIndex_def extractWords_noTags)
qed

text \<open>The call throws after the main batch when the update supplies \<open>tags\<close> as
  \<open>undefined\<close>: the record is written without its tags, the counters stay, and the index
  entries are gone.\<close>

lemma updateAsset_tagsUndefined:
  assumes "getAsset s k = Some existing"
    and "s_tags existing = Some ets" and "s_collections existing = Some ecs"
    and "u_tags updates = Some None"
  shows "fst (updateAsset lc s k updates now) = Inl TypeError
   \<and> assetKeys (snd (updateAsset lc s k updates now))
     = AList.update k (mergeAsset existing updates now) (assetKeys s)
   \<and> s_tags (mergeAsset existing updates now) = None
   \<and> tagsAll (snd (updateAsset lc s k updates now)) = tagsAll s
   \<and> searchWord (snd (updateAsset lc s k updates now))
     = sremEach (wordsOf lc existing) (s_id existing) (searchWord s)"
proof -
  let ?m = "mergeAsset existing updates now"
  obtain ncs where ncs: "coalesce (u_collections updates) (Some ecs) = Some ncs"
    using coalesce_Some [of "u_collections updates" ecs] by auto
  have mt: "s_tags ?m = None"
    using assms(4) by (simp add: mergeAsset_lists spread_def)
  have w0: "extractWords lc existing = Some (wordsOf lc existing)"
    using assms(2) by (rule extractWords_wordsOf)
  have nts: "coalesce (u_tags updates) (Some ets) = Some ets"
    using assms(4) by (simp add: coalesce_def)
  have w1: "extractWords lc ?m = None"
    using mt by (rule extractWords_noTags)
  show ?thesis
    using assms(1)
    by (simp add: updateAsset_def Let_def removeAssetFromSearchIndex_def indexAssetForSearch_def
          w0 w1 mt assms(2,3) nts ncs includesJs_def filterThrowing_total getAsset_def
          zincrbyEach_def)
qed

lemma updateAsset_records:
  assumes "getAsset s k = Some existing"
  shows "assetKeys (snd (updateAsset lc s k updates now)) = assetKeys s
       \<or> assetKeys (snd (updateAsset lc s k updates now))
           = AList.update k (mergeAsset existing updates now) (assetKeys s)"
proof (cases "s_tags existing")
  case None
  with assms show ?thesis by (simp add: updateAsset_noTags)
next
  case tags: (Some ets)
  show ?thesis
  proof (cases "s_collections existing")
    case None
    with assms tags show ?thesis by (simp add: updateAsset_noCollections)
  next
    case (Some ecs)
    show ?thesis
    proof (cases "u_tags updates = Some None")
      case True
      with updateAsset_tagsUndefined [OF assms tags Some True] show ?thesis by simp
    next
      case False
      with updateAsset_effect [OF assms tags Some False] show ?thesis by simp
    qed
  qed
qed

subsection \<open>deleteAsset\<close>

lemma deleteAsset_None [simp]:
  "getAsset s k = None \<Longrightarrow> deleteAsset lc s k = (Inr False, s)"
  by (simp add: deleteAsset_def)

lemma deleteAsset_effect:
  assumes "getAsset s k = Some a"
    and "s_tags a = Some ts" and "s_collections a = Some cs"
  shows "fst (deleteAsset lc s k) = Inr True
   \<and> assetKeys (snd (deleteAsset lc s k)) = AList.delete k (assetKeys s)
   \<and> assetsIndex (snd (deleteAsset lc s k)) = (assetsIndex s)(k := None)
   \<and> tagsAll (snd (deleteAsset lc s k))
     = zremrangebyscore (zincrbyEach (- 1) (map lc ts) (tagsAll s))
   \<and> assetsByCollection (snd (deleteAsset lc s k)) = sremEach cs k (assetsByCollection s)
   \<and> searchWord (snd (deleteAsset lc s k))
     = sremEach (wordsOf lc a) (s_id a) (searchWord s)
   \<and> collectionKeys (snd (deleteAsset lc s k)) = collectionKeys s
   \<and> collectionsIndex (snd (deleteAsset lc s k)) = collectionsIndex s"
  using assms
  by (simp add: deleteAsset_def Let_def removeAssetFromSearchIndex_def
        extractWords_wordsOf [OF assms(2)])

lemma deleteAsset_noCollections:
  assumes "getAsset s k = Some a" and "s_tags a = Some ts" and "s_collections a = None"
  shows "deleteAsset lc s k
     = (Inl TypeError, s\<lparr>searchWord := sremEach (wordsOf lc a) (s_id a) (searchWord s)\<rparr>)"
  using assms
  by (simp add: deleteAsset_def Let_def removeAssetFromSearchIndex_def
        extractWords_wordsOf [OF assms(2)])

lemma deleteAsset_noTags:
  assumes "getAsset s k = Some a" and "s_tags a = None"
  shows "deleteAsset lc s k = (Inl TypeError, s)"
  using assms by (simp add: deleteAsset_def removeAssetFromSearchIndex_def extractWords_noTags)

lemma deleteAsset_records:
  "assetKeys (snd (deleteAsset lc s k)) = assetKeys s
   \<or> assetKeys (snd (deleteAsset lc s k)) = AList.delete k (assetKeys s)"
proof (cases "getAsset s k")
  case None
  then show ?thesis by simp
next
  case (Some a)
  show ?thesis
  proof (cases "s_tags a")
    case None
    with Some show ?thesis by (simp add: deleteAsset_noTags)
  next
    case tags: (Some ts)
    show ?thesis
    proof (cases "s_collections a")
      case None
      with Some tags show ?thesis by (simp add: deleteAsset_noCollections)
    next
      case cs: (Some cs)
      from deleteAsset_effect [OF Some tags cs] show ?thesis by simp
    qed
  qed
qed

subsection \<open>deleteCollection\<close>

text \<open>
  The record that a round of the loop queues, one round on a record that has its
  \<open>collections\<close>, and the reads on which a round throws.
\<close>

definition rewritten :: "jsstring \<Rightarrow> stored_asset \<Rightarrow> timestamp \<Rightarrow> stored_asset" where
  "rewritten cid a t = a\<lparr>s_collections := Some (filter (\<lambda>c. c \<noteq> cid) (collectionsOf a)),
                          s_updatedAt := t\<rparr>"

definition rewriteRound ::
  "jsstring \<Rightarrow> (nat \<Rightarrow> timestamp) \<Rightarrow> store \<Rightarrow> nat \<times> stored_asset option \<Rightarrow> store" where
  "rewriteRound cid clock st ir =
     (case snd ir of
        None \<Rightarrow> st
      | Some a \<Rightarrow> st\<lparr>assetKeys :=
          AList.update (s_id a) (rewritten cid a (clock (fst ir))) (assetKeys st)\<rparr>)"

definition throwingRead :: "nat \<times> stored_asset option \<Rightarrow> bool" where
  "throwingRead ir = (case snd ir of None \<Rightarrow> False | Some a \<Rightarrow> s_collections a = None)"

lemma rewriteMember_round:
  "rewriteMember cid clock st ir
     = (if throwingRead ir then None else Some (rewriteRound cid clock st ir))"
  by (simp add: rewriteMember_def rewriteRound_def throwingRead_def rewritten_def
        collectionsOf_def split: option.splits)

lemma fold_bind_None: "fold (\<lambda>x st. Option.bind st (f x)) xs None = None"
  by (induction xs) simp_all

lemma fold_rewriteMember_round:
  "fold (\<lambda>ir st. Option.bind st (\<lambda>st'. rewriteMember cid clock st' ir)) irs (Some st)
     = (if list_ex throwingRead irs then None
        else Some (fold (\<lambda>ir st. rewriteRound cid clock st ir) irs st))"
proof (induction irs arbitrary: st)
  case Nil
  show ?case by simp
next
  case (Cons ir irs)
  show ?case
  proof (cases "throwingRead ir")
    case True
    then show ?thesis by (simp add: rewriteMember_round fold_bind_None)
  next
    case False
    then show ?thesis using Cons [of "rewriteRound cid clock st ir"]
      by (simp add: rewriteMember_round)
  qed
qed

lemma deleteCollection_None [simp]:
  "getCollection s c = None \<Longrightarrow> deleteCollection s c clock = (Inr False, s)"
  by (simp add: deleteCollection_def)

lemma deleteCollection_rounds:
  assumes "getCollection s c = Some col"
  shows "deleteCollection s c clock =
    (let s1 = s\<lparr>collectionKeys := AList.delete c (collectionKeys s),
                collectionsIndex := (collectionsIndex s)(c := None),
                assetsByCollection := (assetsByCollection s)(c := [])\<rparr>;
         irs = zip [0 ..< length (assetsByCollection s c)]
                 (map (getAsset s1) (assetsByCollection s c))
     in if list_ex throwingRead irs then (Inl TypeError, s1)
        else (Inr True, fold (\<lambda>ir st. rewriteRound c clock st ir) irs s1))"
  using assms
  by (cases "assetsByCollection s c = []")
     (simp_all add: deleteCollection_def Let_def fold_rewriteMember_round)

lemma rewriteRound_fields:
  "assetsIndex (rewriteRound cid clock st ir) = assetsIndex st
   \<and> assetsByCollection (rewriteRound cid clock st ir) = assetsByCollection st
   \<and> collectionKeys (rewriteRound cid clock st ir) = collectionKeys st
   \<and> collectionsIndex (rewriteRound cid clock st ir) = collectionsIndex st
   \<and> tagsAll (rewriteRound cid clock st ir) = tagsAll st
   \<and> searchWord (rewriteRound cid clock st ir) = searchWord st"
  by (cases "snd ir") (simp_all add: rewriteRound_def)

lemma fold_rewriteRound_fields:
  "assetsIndex (fold (\<lambda>ir st. rewriteRound cid clock st ir) irs st) = assetsIndex st
   \<and> assetsByCollection (fold (\<lambda>ir st. rewriteRound cid clock st ir) irs st) = assetsByCollection st
   \<and> collectionKeys (fold (\<lambda>ir st. rewriteRound cid clock st ir) irs st) = collectionKeys st
   \<and> collectionsIndex (fold (\<lambda>ir st. rewriteRound cid clock st ir) irs st) = collectionsIndex st
   \<and> tagsAll (fold (\<lambda>ir st. rewriteRound cid clock st ir) irs st) = tagsAll st
   \<and> searchWord (fold (\<lambda>ir st. rewriteRound cid clock st ir) irs st) = searchWord st"
proof (induction irs arbitrary: st)
  case Nil
  show ?case by simp
next
  case (Cons ir irs)
  show ?case using Cons [of "rewriteRound cid clock st ir"] rewriteRound_fields [of cid clock st ir]
    by simp
qed

lemma rewriteRound_skip: "getAsset (rewriteRound cid clock st (i, None)) k = getAsset st k"
  by (simp add: rewriteRound_def)

lemma rewriteRound_other:
  "s_id a \<noteq> k \<Longrightarrow> getAsset (rewriteRound cid clock st (i, Some a)) k = getAsset st k"
  by (simp add: rewriteRound_def getAsset_def update_conv')

lemma rewriteRound_same:
  "getAsset (rewriteRound cid clock st (i, Some a)) (s_id a) = Some (rewritten cid a (clock i))"
  by (simp add: rewriteRound_def getAsset_def update_conv')

lemma fold_rewriteRound_other:
  "(\<forall>i a. (i, Some a) \<in> set irs \<longrightarrow> s_id a \<noteq> k) \<Longrightarrow>
   getAsset (fold (\<lambda>ir st. rewriteRound cid clock st ir) irs st) k = getAsset st k"
proof (induction irs arbitrary: st)
  case Nil
  then show ?case by simp
next
  case (Cons ir irs)
  obtain i r where ir: "ir = (i, r)" by (cases ir)
  have "getAsset (rewriteRound cid clock st ir) k = getAsset st k"
  proof (cases r)
    case None
    show ?thesis unfolding ir None by (rule rewriteRound_skip)
  next
    case (Some a)
    have "s_id a \<noteq> k" using Cons.prems unfolding ir Some by simp
    then show ?thesis unfolding ir Some by (rule rewriteRound_other)
  qed
  moreover have "\<forall>i a. (i, Some a) \<in> set irs \<longrightarrow> s_id a \<noteq> k"
    using Cons.prems by simp
  ultimately show ?case using Cons.IH [of "rewriteRound cid clock st ir"] by simp
qed

lemma fold_rewriteRound_member:
  assumes "\<forall>i a. (i, Some a) \<in> set irs \<longrightarrow> getAsset s1 (s_id a) = Some a"
    and "(i, Some a) \<in> set irs"
  shows "\<exists>t. getAsset (fold (\<lambda>ir st. rewriteRound cid clock st ir) irs st) (s_id a)
            = Some (rewritten cid a t)"
  using assms
proof (induction irs arbitrary: st i)
  case Nil
  then show ?case by simp
next
  case (Cons ir irs)
  have H: "\<forall>i a. (i, Some a) \<in> set irs \<longrightarrow> getAsset s1 (s_id a) = Some a"
    using Cons.prems(1) by simp
  have here: "getAsset s1 (s_id a) = Some a"
    using Cons.prems(1) Cons.prems(2) by blast
  show ?case
  proof (cases "\<exists>i' a'. (i', Some a') \<in> set irs \<and> s_id a' = s_id a")
    case True
    then obtain i' a' where m: "(i', Some a') \<in> set irs" "s_id a' = s_id a" by blast
    have "getAsset s1 (s_id a') = Some a'" using H m(1) by blast
    then have "getAsset s1 (s_id a) = Some a'" by (simp only: m(2))
    then have "Some a' = Some a" by (simp only: here)
    then have "a' = a" by (simp only: option.inject)
    with m(1) have "(i', Some a) \<in> set irs" by simp
    from Cons.IH [OF H this, of "rewriteRound cid clock st ir"] show ?thesis by simp
  next
    case False
    have "ir = (i, Some a) \<or> (i, Some a) \<in> set irs" using Cons.prems(2) by auto
    with False have ir: "ir = (i, Some a)" by blast
    have no: "\<forall>i' a'. (i', Some a') \<in> set irs \<longrightarrow> s_id a' \<noteq> s_id a"
      using False by blast
    have "getAsset (fold (\<lambda>ir st. rewriteRound cid clock st ir) irs (rewriteRound cid clock st ir)) (s_id a)
        = getAsset (rewriteRound cid clock st ir) (s_id a)"
      by (rule fold_rewriteRound_other [OF no])
    also have "\<dots> = Some (rewritten cid a (clock i))"
      unfolding ir by (rule rewriteRound_same)
    finally have "getAsset (fold (\<lambda>ir st. rewriteRound cid clock st ir) (ir # irs) st) (s_id a)
        = Some (rewritten cid a (clock i))" by simp
    then show ?thesis by (rule exI)
  qed
qed

text \<open>Whether the call returns or throws, it deletes the three keys of the collection and
  touches no counter and no word set.\<close>

lemma deleteCollection_fields:
  assumes "getCollection s c = Some col"
  shows "collectionKeys (snd (deleteCollection s c clock)) = AList.delete c (collectionKeys s)
   \<and> collectionsIndex (snd (deleteCollection s c clock)) = (collectionsIndex s)(c := None)
   \<and> assetsByCollection (snd (deleteCollection s c clock)) = (assetsByCollection s)(c := [])
   \<and> assetsIndex (snd (deleteCollection s c clock)) = assetsIndex s
   \<and> tagsAll (snd (deleteCollection s c clock)) = tagsAll s
   \<and> searchWord (snd (deleteCollection s c clock)) = searchWord s"
  by (simp add: deleteCollection_rounds [OF assms] Let_def fold_rewriteRound_fields)

lemma deleteCollection_throws:
  assumes "getCollection s c = Some col" and "fst (deleteCollection s c clock) \<noteq> Inr True"
  shows "fst (deleteCollection s c clock) = Inl TypeError
       \<and> assetKeys (snd (deleteCollection s c clock)) = assetKeys s"
  using assms(2) by (simp add: deleteCollection_rounds [OF assms(1)] Let_def split: if_splits)

text \<open>A call that returns has rewritten the record of every member and no other. A store
  is \<open>keyed\<close> when every record is stored under its own identifier.\<close>

definition keyed :: "store \<Rightarrow> bool" where
  "keyed s = (\<forall>k a. getAsset s k = Some a \<longrightarrow> s_id a = k)"

lemma deleteCollection_assets:
  assumes "keyed s" and "getCollection s c = Some col"
    and "fst (deleteCollection s c clock) = Inr True"
  shows "(k \<notin> set (assetsByCollection s c) \<or> getAsset s k = None
            \<longrightarrow> getAsset (snd (deleteCollection s c clock)) k = getAsset s k)
     \<and> (\<forall>a. k \<in> set (assetsByCollection s c) \<and> getAsset s k = Some a
            \<longrightarrow> s_collections a \<noteq> None
              \<and> (\<exists>t. getAsset (snd (deleteCollection s c clock)) k = Some (rewritten c a t)))"
proof -
  define s1 where "s1 = s\<lparr>collectionKeys := AList.delete c (collectionKeys s),
                      collectionsIndex := (collectionsIndex s)(c := None),
                      assetsByCollection := (assetsByCollection s)(c := [])\<rparr>"
  define ids where "ids = assetsByCollection s c"
  define irs where "irs = zip [0 ..< length ids] (map (getAsset s1) ids)"
  have g1: "getAsset s1 = getAsset s" by (auto simp: s1_def getAsset_def)
  have nothrow: "\<not> list_ex throwingRead irs"
    using assms(3)
    by (simp add: deleteCollection_rounds [OF assms(2)] Let_def s1_def ids_def irs_def
          split: if_splits)
  then have s': "snd (deleteCollection s c clock) = fold (\<lambda>ir st. rewriteRound c clock st ir) irs s1"
    by (simp add: deleteCollection_rounds [OF assms(2)] Let_def s1_def ids_def irs_def)
  have reads: "getAsset s (s_id a) = Some a \<and> s_id a \<in> set ids" if "(i, Some a) \<in> set irs" for i a
  proof -
    from that have "Some a \<in> set (map (getAsset s1) ids)"
      unfolding irs_def by (rule set_zip_rightD)
    then obtain k where "k \<in> set ids" "getAsset s k = Some a" by (auto simp: g1)
    with assms(1) show ?thesis by (auto simp: keyed_def)
  qed
  have found: "\<exists>i. (i, Some a) \<in> set irs" if "k \<in> set ids" "getAsset s k = Some a" for a
  proof -
    from that(1) obtain n where "n < length ids" "ids ! n = k" by (auto simp: in_set_conv_nth)
    then have "(n, Some a) \<in> set irs"
      using that(2) by (auto simp: irs_def in_set_zip g1 intro!: exI [of _ n])
    then show ?thesis ..
  qed
  show ?thesis
  proof (intro conjI allI impI)
    assume "k \<notin> set (assetsByCollection s c) \<or> getAsset s k = None"
    then have "\<forall>i a. (i, Some a) \<in> set irs \<longrightarrow> s_id a \<noteq> k"
      using reads by (auto simp: ids_def)
    then show "getAsset (snd (deleteCollection s c clock)) k = getAsset s k"
      unfolding s' by (simp add: fold_rewriteRound_other g1)
  next
    fix a
    assume h: "k \<in> set (assetsByCollection s c) \<and> getAsset s k = Some a"
    then obtain i where i: "(i, Some a) \<in> set irs" using found by (auto simp: ids_def)
    then have "\<not> throwingRead (i, Some a)" using nothrow by (auto simp: list_ex_iff)
    then show "s_collections a \<noteq> None" by (simp add: throwingRead_def)
  next
    fix a
    assume h: "k \<in> set (assetsByCollection s c) \<and> getAsset s k = Some a"
    then obtain i where i: "(i, Some a) \<in> set irs" using found by (auto simp: ids_def)
    have key: "s_id a = k" using assms(1) h by (simp add: keyed_def)
    have "\<forall>i a. (i, Some a) \<in> set irs \<longrightarrow> getAsset s1 (s_id a) = Some a"
      using reads by (simp add: g1)
    from fold_rewriteRound_member [OF this i, of c clock s1]
    show "\<exists>t. getAsset (snd (deleteCollection s c clock)) k = Some (rewritten c a t)"
      unfolding s' key .
  qed
qed

text \<open>The call returns when every member's record has its \<open>collections\<close>.\<close>

lemma deleteCollection_returns:
  assumes "getCollection s c = Some col"
    and "\<forall>k a. getAsset s k = Some a \<longrightarrow> s_collections a \<noteq> None"
  shows "fst (deleteCollection s c clock) = Inr True"
proof -
  define s1 where "s1 = s\<lparr>collectionKeys := AList.delete c (collectionKeys s),
                      collectionsIndex := (collectionsIndex s)(c := None),
                      assetsByCollection := (assetsByCollection s)(c := [])\<rparr>"
  define irs where "irs = zip [0 ..< length (assetsByCollection s c)]
                            (map (getAsset s1) (assetsByCollection s c))"
  have g1: "getAsset s1 = getAsset s" by (auto simp: s1_def getAsset_def)
  have "\<not> throwingRead ir" if "ir \<in> set irs" for ir
  proof -
    obtain i r where ir: "ir = (i, r)" by (cases ir)
    from that have "r \<in> set (map (getAsset s1) (assetsByCollection s c))"
      unfolding irs_def ir by (rule set_zip_rightD)
    then show ?thesis using assms(2) by (auto simp: throwingRead_def ir g1 split: option.splits)
  qed
  then have "\<not> list_ex throwingRead irs" by (auto simp: list_ex_iff)
  then show ?thesis
    by (simp add: deleteCollection_rounds [OF assms(1)] Let_def s1_def irs_def)
qed

section \<open>Records are stored under their own identifier\<close>

lemma keyed_emptyStore: "keyed emptyStore"
  by (simp add: keyed_def emptyStore_def getAsset_def)

lemma keyed_createAsset: "keyed s \<Longrightarrow> keyed (snd (createAsset lc s uid now score input))"
  by (auto simp: keyed_def getAsset_createAsset asset_input.defs asset.defs split: if_splits)

lemma keyed_updateAsset: "keyed s \<Longrightarrow> keyed (snd (updateAsset lc s k updates now))"
proof (cases "getAsset s k")
  case None
  assume "keyed s"
  with None show ?thesis by simp
next
  case (Some existing)
  assume ks: "keyed s"
  then have "s_id existing = k" using Some by (simp add: keyed_def)
  with ks updateAsset_records [OF Some, of lc updates now] show ?thesis
    by (auto simp: keyed_def getAsset_def update_conv' split: if_splits)
qed

lemma keyed_deleteAsset: "keyed s \<Longrightarrow> keyed (snd (deleteAsset lc s k))"
  using deleteAsset_records [of lc s k]
  by (auto simp: keyed_def getAsset_def delete_conv' split: if_splits)

lemma keyed_rewriteRound: "keyed st \<Longrightarrow> keyed (rewriteRound cid clock st ir)"
  by (cases "snd ir")
     (auto simp: keyed_def rewriteRound_def rewritten_def getAsset_def update_conv' split: if_splits)

lemma keyed_fold_rewriteRound:
  "keyed st \<Longrightarrow> keyed (fold (\<lambda>ir st. rewriteRound cid clock st ir) irs st)"
  by (induction irs arbitrary: st) (simp_all add: keyed_rewriteRound)

lemma keyed_deleteCollection:
  assumes "keyed s"
  shows "keyed (snd (deleteCollection s c clock))"
proof (cases "getCollection s c")
  case None
  with assms show ?thesis by simp
next
  case (Some col)
  let ?s1 = "s\<lparr>collectionKeys := AList.delete c (collectionKeys s),
                collectionsIndex := (collectionsIndex s)(c := None),
                assetsByCollection := (assetsByCollection s)(c := [])\<rparr>"
  have "keyed ?s1" using assms by (simp add: keyed_def getAsset_def)
  then show ?thesis
    by (simp add: deleteCollection_rounds [OF Some] Let_def keyed_fold_rewriteRound)
qed

lemma keyed_addAssetToCollection:
  "keyed s \<Longrightarrow> addAssetToCollection s c a now1 now2 = Inr s' \<Longrightarrow> keyed s'"
  by (auto simp: addAssetToCollection_def keyed_def getAsset_def update_conv'
        split: option.splits if_splits)

lemma keyed_removeAssetFromCollection:
  "keyed s \<Longrightarrow> removeAssetFromCollection s c a now1 now2 = Inr s' \<Longrightarrow> keyed s'"
  by (auto simp: removeAssetFromCollection_def keyed_def getAsset_def update_conv'
        split: option.splits if_splits)

lemma keyed_step: "keyed s \<Longrightarrow> keyed (step lc s x)"
proof (cases x)
  case (CreateCollection uid now score name descr)
  assume "keyed s"
  with CreateCollection show ?thesis
    by (simp add: keyed_def createCollection_def Let_def getAsset_def)
next
  case (UpdateCollection k updates now)
  assume "keyed s"
  with UpdateCollection show ?thesis
    by (simp add: keyed_def updateCollection_def Let_def getAsset_def split: option.splits)
next
  case (AddAssetToCollection c a now1 now2)
  assume "keyed s"
  with AddAssetToCollection show ?thesis
    by (cases "addAssetToCollection s c a now1 now2") (simp_all add: keyed_addAssetToCollection)
next
  case (RemoveAssetFromCollection c a now1 now2)
  assume "keyed s"
  with RemoveAssetFromCollection show ?thesis
    by (cases "removeAssetFromCollection s c a now1 now2")
       (simp_all add: keyed_removeAssetFromCollection)
qed (simp_all add: keyed_createAsset keyed_updateAsset keyed_deleteAsset keyed_deleteCollection)


section \<open>Consistency of the derived indexes\<close>

text \<open>
  What every store satisfies that the operations build from the empty store when no
  update supplies \<open>tags\<close> or \<open>collections\<close> as \<open>undefined\<close>: a record is stored under
  its own identifier and has its two lists; the word index holds an identifier under
  exactly the words extracted from its record; a membership set holds exactly the
  identifiers of the records whose \<open>collections\<close> field names the collection.
\<close>

lemma set_sadd [simp]: "set (sadd x xs) = insert x (set xs)"
  by (auto simp: sadd_def)

lemma set_srem [simp]: "set (srem x xs) = set xs - {x}"
  by (auto simp: srem_def)

lemma set_saddEach:
  "set (saddEach ks x f k) = (if k \<in> set ks then insert x (set (f k)) else set (f k))"
  unfolding saddEach_def by (induction ks arbitrary: f) auto

lemma set_sremEach:
  "set (sremEach ks x f k) = (if k \<in> set ks then set (f k) - {x} else set (f k))"
  unfolding sremEach_def by (induction ks arbitrary: f) auto

definition listsPresent :: "store \<Rightarrow> bool" where
  "listsPresent s =
     (\<forall>k a. getAsset s k = Some a \<longrightarrow> s_tags a \<noteq> None \<and> s_collections a \<noteq> None)"

definition wordIndexExact :: "(jsstring \<Rightarrow> jsstring) \<Rightarrow> store \<Rightarrow> bool" where
  "wordIndexExact lc s =
     (\<forall>w. set (searchWord s w) = {k. \<exists>a. getAsset s k = Some a \<and> w \<in> set (wordsOf lc a)})"

definition membershipExact :: "store \<Rightarrow> bool" where
  "membershipExact s =
     (\<forall>c. set (assetsByCollection s c)
          = {k. \<exists>a. getAsset s k = Some a \<and> c \<in> set (collectionsOf a)})"

definition consistent :: "(jsstring \<Rightarrow> jsstring) \<Rightarrow> store \<Rightarrow> bool" where
  "consistent lc s = (keyed s \<and> listsPresent s \<and> wordIndexExact lc s \<and> membershipExact s)"

fun listsDefinedOp :: "op \<Rightarrow> bool" where
  "listsDefinedOp (UpdateAsset k updates now) = listsDefined updates"
| "listsDefinedOp _ = True"

lemma consistent_emptyStore: "consistent lc emptyStore"
  by (simp add: consistent_def keyed_def listsPresent_def wordIndexExact_def membershipExact_def
        emptyStore_def getAsset_def)

lemma consistentD:
  assumes "consistent lc s" and "getAsset s k = Some a"
  shows "s_id a = k" and "\<exists>ts. s_tags a = Some ts" and "\<exists>cs. s_collections a = Some cs"
  using assms by (auto simp: consistent_def keyed_def listsPresent_def)

subsection \<open>createAsset\<close>

lemma consistent_createAsset:
  assumes "consistent lc s" and "getAsset s uid = None"
  shows "consistent lc (snd (createAsset lc s uid now score input))"
proof -
  let ?a = "stored (asset_input.extend input (asset.fields uid now now))"
  let ?s' = "snd (createAsset lc s uid now score input)"
  note e = createAsset_effect [of lc s uid now score input]
  have c: "collectionsOf ?a = collections input"
    by (simp add: collectionsOf_def asset_input.defs asset.defs)
  have k: "keyed ?s'" using assms(1) by (simp add: consistent_def keyed_createAsset)
  have l: "listsPresent ?s'"
    using assms by (auto simp: consistent_def listsPresent_def getAsset_createAsset split: if_splits)
  have w: "wordIndexExact lc ?s'"
    using assms unfolding consistent_def wordIndexExact_def
    by (auto simp: e set_saddEach getAsset_createAsset split: if_splits)
  have m: "membershipExact ?s'"
    using assms unfolding consistent_def membershipExact_def
    by (auto simp: e set_saddEach getAsset_createAsset c split: if_splits)
  from k l w m show ?thesis by (simp add: consistent_def)
qed

subsection \<open>updateAsset\<close>

lemma getAsset_updateAsset:
  assumes "getAsset s k = Some existing"
    and "s_tags existing = Some ets" and "s_collections existing = Some ecs"
    and "u_tags updates \<noteq> Some None"
  shows "getAsset (snd (updateAsset lc s k updates now)) k' =
     (if k' = k then Some (mergeAsset existing updates now) else getAsset s k')"
  using updateAsset_effect [OF assms, of lc now] by (simp add: getAsset_def update_conv')

lemma members_updateAsset:
  assumes "getAsset s k = Some existing"
    and "s_tags existing = Some ets" and "s_collections existing = Some ecs"
    and "listsDefined updates"
  shows "set (assetsByCollection (snd (updateAsset lc s k updates now)) c) =
    (if c \<in> set ecs \<and> c \<notin> set (collectionsOf (mergeAsset existing updates now))
     then set (assetsByCollection s c) - {k}
     else if c \<in> set (collectionsOf (mergeAsset existing updates now)) \<and> c \<notin> set ecs
     then insert k (set (assetsByCollection s c))
     else set (assetsByCollection s c))"
proof -
  have t: "u_tags updates \<noteq> Some None" and u: "u_collections updates \<noteq> Some None"
    using assms(4) by (simp_all add: listsDefined_def)
  have "s_collections (mergeAsset existing updates now)
          = coalesce (u_collections updates) (Some ecs)"
    using u by (simp add: mergeAsset_lists assms(3) spread_coalesce)
  then have c: "the (coalesce (u_collections updates) (Some ecs))
          = collectionsOf (mergeAsset existing updates now)"
    using coalesce_Some [of "u_collections updates" ecs] by (auto simp: collectionsOf_def)
  show ?thesis
    using updateAsset_effect [OF assms(1,2,3) t, of lc now]
    by (simp add: c set_saddEach set_sremEach)
qed

lemma consistent_updateAsset:
  assumes "consistent lc s" and "listsDefined updates"
  shows "consistent lc (snd (updateAsset lc s k updates now))"
proof (cases "getAsset s k")
  case None
  with assms show ?thesis by simp
next
  case (Some existing)
  let ?s' = "snd (updateAsset lc s k updates now)"
  let ?m = "mergeAsset existing updates now"
  from consistentD [OF assms(1) Some] obtain ets ecs
    where id: "s_id existing = k" and ets: "s_tags existing = Some ets"
      and ecs: "s_collections existing = Some ecs" by blast
  have t: "u_tags updates \<noteq> Some None" and u: "u_collections updates \<noteq> Some None"
    using assms(2) by (simp_all add: listsDefined_def)
  note e = updateAsset_effect [OF Some ets ecs t, of lc now]
  note g = getAsset_updateAsset [OF Some ets ecs t, of lc now]
  note mem = members_updateAsset [OF Some ets ecs assms(2), of lc now]
  have ec: "collectionsOf existing = ecs" using ecs by (rule s_collections_collectionsOf)
  have ml: "s_tags ?m \<noteq> None \<and> s_collections ?m \<noteq> None"
    using t u ets ecs coalesce_Some [of "u_tags updates" ets]
      coalesce_Some [of "u_collections updates" ecs]
    by (auto simp: mergeAsset_lists spread_coalesce)
  have k: "keyed ?s'" using assms(1) by (simp add: consistent_def keyed_updateAsset)
  have l: "listsPresent ?s'"
    using assms(1) ml by (auto simp: consistent_def listsPresent_def g split: if_splits)
  have w: "wordIndexExact lc ?s'"
    using assms(1) Some id unfolding consistent_def wordIndexExact_def
    by (auto simp: e set_saddEach set_sremEach g split: if_splits)
  have m: "membershipExact ?s'"
    using assms(1) Some ec unfolding consistent_def membershipExact_def
    by (auto simp: mem g split: if_splits)
  from k l w m show ?thesis by (simp add: consistent_def)
qed

subsection \<open>deleteAsset\<close>

lemma getAsset_deleteAsset:
  assumes "getAsset s k = Some a" and "s_tags a = Some ts" and "s_collections a = Some cs"
  shows "getAsset (snd (deleteAsset lc s k)) k' = (if k' = k then None else getAsset s k')"
  using deleteAsset_effect [OF assms, of lc] by (simp add: getAsset_def delete_conv')

lemma consistent_deleteAsset:
  assumes "consistent lc s"
  shows "consistent lc (snd (deleteAsset lc s k))"
proof (cases "getAsset s k")
  case None
  with assms show ?thesis by simp
next
  case (Some a)
  let ?s' = "snd (deleteAsset lc s k)"
  from consistentD [OF assms(1) Some] obtain ts cs
    where id: "s_id a = k" and ts: "s_tags a = Some ts"
      and cs: "s_collections a = Some cs" by blast
  note e = deleteAsset_effect [OF Some ts cs, of lc]
  note g = getAsset_deleteAsset [OF Some ts cs, of lc]
  have ec: "collectionsOf a = cs" using cs by (rule s_collections_collectionsOf)
  have k: "keyed ?s'" using assms(1) by (simp add: consistent_def keyed_deleteAsset)
  have l: "listsPresent ?s'"
    using assms(1) by (auto simp: consistent_def listsPresent_def g split: if_splits)
  have w: "wordIndexExact lc ?s'"
    using assms Some id unfolding consistent_def wordIndexExact_def
    by (auto simp: e set_sremEach g split: if_splits)
  have m: "membershipExact ?s'"
    using assms Some ec unfolding consistent_def membershipExact_def
    by (auto simp: e set_sremEach g split: if_splits)
  from k l w m show ?thesis by (simp add: consistent_def)
qed

subsection \<open>createCollection and updateCollection\<close>

lemma consistent_createCollection:
  "consistent lc s \<Longrightarrow> consistent lc (snd (createCollection s uid now score name descr))"
  by (simp add: consistent_def keyed_def listsPresent_def wordIndexExact_def membershipExact_def
        createCollection_def Let_def getAsset_def)

lemma consistent_updateCollection:
  "consistent lc s \<Longrightarrow> consistent lc (snd (updateCollection s k updates now))"
  by (simp add: consistent_def keyed_def listsPresent_def wordIndexExact_def membershipExact_def
        updateCollection_def Let_def getAsset_def split: option.splits)

subsection \<open>addAssetToCollection and removeAssetFromCollection\<close>

lemma wordsOf_collections_update [simp]:
  "wordsOf lc (a\<lparr>s_collections := cs, s_updatedAt := t\<rparr>) = wordsOf lc a"
  by (cases "s_tags a") (simp_all add: wordsOf_def extractWords_def)

lemma collectionsOf_update [simp]:
  "collectionsOf (a\<lparr>s_collections := Some cs, s_updatedAt := t\<rparr>) = cs"
  by (simp add: collectionsOf_def)

lemma consistent_addAssetToCollection:
  assumes "consistent lc s" and "addAssetToCollection s c a now1 now2 = Inr s'"
  shows "consistent lc s'"
proof -
  have k: "keyed s'"
    using assms by (auto simp: consistent_def intro: keyed_addAssetToCollection)
  have l: "listsPresent s'"
    using assms
    by (auto simp: addAssetToCollection_def consistent_def listsPresent_def getAsset_def
        update_conv' split: option.splits if_splits)
  have w: "wordIndexExact lc s'"
    using assms unfolding consistent_def wordIndexExact_def
    by (auto simp: addAssetToCollection_def getAsset_def update_conv' split: option.splits if_splits)
  have m: "membershipExact s'"
    using assms unfolding consistent_def membershipExact_def
    by (auto simp: addAssetToCollection_def getAsset_def update_conv' sismember_def
        collectionsOf_def split: option.splits if_splits)
  from k l w m show ?thesis by (simp add: consistent_def)
qed

lemma consistent_removeAssetFromCollection:
  assumes "consistent lc s" and "removeAssetFromCollection s c a now1 now2 = Inr s'"
  shows "consistent lc s'"
proof -
  have k: "keyed s'"
    using assms by (auto simp: consistent_def intro: keyed_removeAssetFromCollection)
  have l: "listsPresent s'"
    using assms
    by (auto simp: removeAssetFromCollection_def consistent_def listsPresent_def getAsset_def
        update_conv' split: option.splits if_splits)
  have w: "wordIndexExact lc s'"
    using assms unfolding consistent_def wordIndexExact_def
    by (auto simp: removeAssetFromCollection_def getAsset_def update_conv' split: option.splits if_splits)
  have m: "membershipExact s'"
    using assms unfolding consistent_def membershipExact_def
    by (auto simp: removeAssetFromCollection_def getAsset_def update_conv' sismember_def
        collectionsOf_def split: option.splits if_splits)
  from k l w m show ?thesis by (simp add: consistent_def)
qed

subsection \<open>deleteCollection\<close>

lemma rewritten_fields [simp]:
  "s_id (rewritten c a t) = s_id a" "s_tags (rewritten c a t) = s_tags a"
  "wordsOf lc (rewritten c a t) = wordsOf lc a"
  "collectionsOf (rewritten c a t) = filter (\<lambda>x. x \<noteq> c) (collectionsOf a)"
  "s_collections (rewritten c a t) = Some (filter (\<lambda>x. x \<noteq> c) (collectionsOf a))"
  by (simp_all add: rewritten_def)

lemma consistent_deleteCollection:
  assumes "consistent lc s"
  shows "consistent lc (snd (deleteCollection s c clock))"
proof (cases "getCollection s c")
  case None
  with assms show ?thesis by simp
next
  case (Some col)
  let ?s' = "snd (deleteCollection s c clock)"
  have ks: "keyed s" using assms by (simp add: consistent_def)
  have ls: "\<forall>k a. getAsset s k = Some a \<longrightarrow> s_collections a \<noteq> None"
    using assms by (simp add: consistent_def listsPresent_def)
  have ret: "fst (deleteCollection s c clock) = Inr True"
    using Some ls by (rule deleteCollection_returns)
  note f = deleteCollection_fields [OF Some, of clock]
  note a = deleteCollection_assets [OF ks Some ret, of _]
  have ga: "\<exists>a'. getAsset s k = Some a' \<and> s_id a = s_id a' \<and> wordsOf lc a = wordsOf lc a'
       \<and> s_tags a = s_tags a' \<and> s_collections a \<noteq> None
       \<and> set (collectionsOf a) = set (collectionsOf a') - (if k \<in> set (assetsByCollection s c) then {c} else {})"
    if "getAsset ?s' k = Some a" for k a
  proof (cases "getAsset s k")
    case None
    with a [of k] that show ?thesis by simp
  next
    case (Some a0)
    show ?thesis
    proof (cases "k \<in> set (assetsByCollection s c)")
      case True
      with a [of k] Some that show ?thesis by auto
    next
      case False
      with a [of k] Some that ls show ?thesis by auto
    qed
  qed
  have gb: "\<exists>a'. getAsset ?s' k = Some a' \<and> s_id a' = s_id a \<and> wordsOf lc a' = wordsOf lc a
       \<and> set (collectionsOf a') = set (collectionsOf a) - (if k \<in> set (assetsByCollection s c) then {c} else {})"
    if "getAsset s k = Some a" for k a
  proof (cases "k \<in> set (assetsByCollection s c)")
    case True
    with a [of k] that show ?thesis by auto
  next
    case False
    with a [of k] that show ?thesis by auto
  qed
  have k: "keyed ?s'" using ks by (rule keyed_deleteCollection)
  have l: "listsPresent ?s'"
    unfolding listsPresent_def
  proof (intro allI impI)
    fix k a
    assume "getAsset ?s' k = Some a"
    from ga [OF this] obtain a' where "getAsset s k = Some a'" "s_tags a = s_tags a'"
      "s_collections a \<noteq> None" by blast
    with assms show "s_tags a \<noteq> None \<and> s_collections a \<noteq> None"
      by (auto simp: consistent_def listsPresent_def)
  qed
  have w: "wordIndexExact lc ?s'"
    using assms unfolding consistent_def wordIndexExact_def
    apply (simp add: f)
    apply (intro allI set_eqI iffI)
    using gb apply fastforce
    using ga apply fastforce
    done
  have m: "membershipExact ?s'"
    unfolding membershipExact_def
  proof (intro allI set_eqI iffI)
    fix c' k
    assume "k \<in> set (assetsByCollection ?s' c')"
    then have c': "c' \<noteq> c" and "k \<in> set (assetsByCollection s c')" by (auto simp: f split: if_splits)
    then obtain a where "getAsset s k = Some a" "c' \<in> set (collectionsOf a)"
      using assms by (auto simp: consistent_def membershipExact_def)
    with gb [of k a] c' show "k \<in> {k. \<exists>a. getAsset ?s' k = Some a \<and> c' \<in> set (collectionsOf a)}"
      by auto
  next
    fix c' k
    assume "k \<in> {k. \<exists>a. getAsset ?s' k = Some a \<and> c' \<in> set (collectionsOf a)}"
    then obtain a where a': "getAsset ?s' k = Some a" "c' \<in> set (collectionsOf a)" by blast
    from ga [OF a'(1)] obtain a0 where a0: "getAsset s k = Some a0"
      "set (collectionsOf a) = set (collectionsOf a0) - (if k \<in> set (assetsByCollection s c) then {c} else {})"
      by blast
    have mem: "k \<in> set (assetsByCollection s c')"
      using assms a0 a'(2) by (auto simp: consistent_def membershipExact_def split: if_splits)
    have "c' \<noteq> c" using a0 a'(2) mem by (auto split: if_splits)
    with mem show "k \<in> set (assetsByCollection ?s' c')" by (simp add: f)
  qed
  from k l w m show ?thesis by (simp add: consistent_def)
qed

lemma consistent_step:
  assumes "consistent lc s" and "freshStep s x" and "listsDefinedOp x"
  shows "consistent lc (step lc s x)"
proof (cases x)
  case (CreateAsset uid now score input)
  with assms show ?thesis by (simp add: consistent_createAsset)
next
  case (UpdateAsset k updates now)
  with assms show ?thesis by (simp add: consistent_updateAsset)
next
  case (DeleteAsset k)
  with assms show ?thesis by (simp add: consistent_deleteAsset)
next
  case (CreateCollection uid now score name descr)
  with assms show ?thesis by (simp add: consistent_createCollection)
next
  case (UpdateCollection k updates now)
  with assms show ?thesis by (simp add: consistent_updateCollection)
next
  case (DeleteCollection k clock)
  with assms show ?thesis by (simp add: consistent_deleteCollection)
next
  case (AddAssetToCollection c a now1 now2)
  show ?thesis
  proof (cases "addAssetToCollection s c a now1 now2")
    case (Inl e)
    with assms AddAssetToCollection show ?thesis by simp
  next
    case (Inr s')
    with assms(1) AddAssetToCollection consistent_addAssetToCollection [OF assms(1) Inr]
    show ?thesis by simp
  qed
next
  case (RemoveAssetFromCollection c a now1 now2)
  show ?thesis
  proof (cases "removeAssetFromCollection s c a now1 now2")
    case (Inl e)
    with assms RemoveAssetFromCollection show ?thesis by simp
  next
    case (Inr s')
    with assms(1) RemoveAssetFromCollection
      consistent_removeAssetFromCollection [OF assms(1) Inr]
    show ?thesis by simp
  qed
qed

lemma consistent_run:
  "consistent lc s \<Longrightarrow> freshRun lc s ops \<Longrightarrow> list_all listsDefinedOp ops \<Longrightarrow>
   consistent lc (run lc s ops)"
proof (induction ops arbitrary: s)
  case Nil
  then show ?case by simp
next
  case (Cons x xs)
  then have "consistent lc (step lc s x)" by (simp add: consistent_step)
  with Cons show ?case by simp
qed

text \<open>Two updates that supply a list as \<open>undefined\<close>, and the store after the second.\<close>

definition exNoTags :: asset_updates where
  "exNoTags = noUpdates\<lparr>u_tags := Some None\<rparr>"

definition exNoCollections :: asset_updates where
  "exNoCollections = noUpdates\<lparr>u_collections := Some None\<rparr>"

definition exBrokenOps :: "op list" where
  "exBrokenOps = exOps @ [UpdateAsset (str ''a1'') exNoCollections 30]"

definition exBrokenStore :: store where
  "exBrokenStore = run asciiLower emptyStore exBrokenOps"

lemma run_append: "run lc s (xs @ ys) = run lc (run lc s xs) ys"
  by (induction xs arbitrary: s) simp_all


lemma exAsset_fields [simp]:
  "tags exAsset = [str ''animation'', str ''Demo'']" "collections exAsset = []"
  "a_id exAsset = str ''a1''"
  by (simp_all add: exAsset_def exInput_def asset_input.defs asset.defs)

lemma exAsset_lists:
  "s_tags (stored exAsset) = Some [str ''animation'', str ''Demo'']"
  "s_collections (stored exAsset) = Some []"
  by simp_all

lemma exBrokenStore_update:
  "exBrokenStore = snd (updateAsset asciiLower exStore (str ''a1'') exNoCollections 30)"
  by (simp add: exBrokenStore_def exBrokenOps_def run_append exStore_def)

lemma exNoCollections_tags: "u_tags exNoCollections \<noteq> Some None"
  by (simp add: exNoCollections_def noUpdates_def)

lemma exBrokenStore_asset:
  "getAsset exBrokenStore (str ''a1'') = Some (mergeAsset (stored exAsset) exNoCollections 30)"
  unfolding exBrokenStore_update
  by (simp add: getAsset_updateAsset [OF exStore_asset exAsset_lists exNoCollections_tags])

lemma exBroken_lists:
  "s_tags (mergeAsset (stored exAsset) exNoCollections 30) = Some [str ''animation'', str ''Demo'']"
  "s_collections (mergeAsset (stored exAsset) exNoCollections 30) = None"
  by (simp_all add: mergeAsset_lists exAsset_lists exNoCollections_def noUpdates_def spread_def)

section \<open>createAsset and getAsset\<close>

text \<open>
  Claim C3. For every input, \<open>createAsset\<close> returns a record, and \<open>getAsset\<close> with the
  identifier of that record yields it, as the object that the JSON round trip makes of
  it: an object with every property of the record, which reads back as the record. The
  record is the input in every field of the input (cutting it back to the input's fields
  gives the input), and it carries besides the identifier drawn and the clock reading as
  both timestamps.
\<close>

theorem createAsset_getAsset_roundtrip:
  "\<exists>a s'. createAsset lc s uid now score input = (Inr a, s')
     \<and> getAsset s' (a_id a) = Some (stored a)
     \<and> typed (stored a) = Some a
     \<and> asset_input.truncate a = input
     \<and> a_id a = uid
     \<and> createdAt a = now
     \<and> updatedAt a = now"
proof -
  let ?a = "asset_input.extend input (asset.fields uid now now)"
  obtain r s' where c: "createAsset lc s uid now score input = (r, s')"
    by (cases "createAsset lc s uid now score input")
  have r: "r = Inr ?a" using fst_createAsset [of lc s uid now score input] c by simp
  have g: "getAsset s' uid = Some (stored ?a)"
    using getAsset_createAsset [of lc s uid now score input uid] c by simp
  show ?thesis
    apply (rule exI [of _ ?a])
    apply (rule exI [of _ s'])
    using c r g by (simp add: typed_stored asset_input.defs asset.defs)
qed

theorem createAsset_getAsset_roundtrip_witness:
  "\<exists>s'. createAsset asciiLower emptyStore (str ''a1'') 20 20 exInput = (Inr exAsset, s')
     \<and> getAsset s' (str ''a1'') = Some (stored exAsset)
     \<and> typed (stored exAsset) = Some exAsset
     \<and> asset_input.truncate exAsset = exInput"
proof -
  from createAsset_getAsset_roundtrip [of asciiLower emptyStore "str ''a1''" 20 20 exInput]
  obtain a s' where h: "createAsset asciiLower emptyStore (str ''a1'') 20 20 exInput = (Inr a, s')"
    "getAsset s' (a_id a) = Some (stored a)" "typed (stored a) = Some a"
    "asset_input.truncate a = exInput" "a_id a = str ''a1''"
    by blast
  have "fst (createAsset asciiLower emptyStore (str ''a1'') 20 20 exInput) = Inr exAsset"
    by (simp add: fst_createAsset exAsset_def)
  with h(1) have "a = exAsset" by simp
  with h show ?thesis by auto
qed

section \<open>updateAsset: the merge\<close>

text \<open>
  Claim C5 as it is written fails. \<open>Partial<Asset>\<close> admits an update that supplies
  \<open>tags\<close> as \<open>undefined\<close>: for the asset of the example store \<open>updateAsset\<close> then
  throws, after it has written the record without its tags, and returns no record. An
  update that supplies \<open>collections\<close> as \<open>undefined\<close> returns the merged record, which
  has no \<open>collections\<close>, and on the record it stored every later update throws.
\<close>

theorem updateAsset_merge_counterexample:
  "getAsset exStore (str ''a1'') = Some (stored exAsset)
   \<and> fst (updateAsset asciiLower exStore (str ''a1'') exNoTags 30) = Inl TypeError
   \<and> map_option s_tags
       (getAsset (snd (updateAsset asciiLower exStore (str ''a1'') exNoTags 30)) (str ''a1''))
       = Some None
   \<and> fst (updateAsset asciiLower exStore (str ''a1'') exNoCollections 30)
       = Inr (Some (mergeAsset (stored exAsset) exNoCollections 30))
   \<and> s_collections (mergeAsset (stored exAsset) exNoCollections 30) = None
   \<and> fst (updateAsset asciiLower
            (snd (updateAsset asciiLower exStore (str ''a1'') exNoCollections 30))
            (str ''a1'') exUpdates 40) = Inl TypeError"
proof -
  have nt: "u_tags exNoTags = Some None" by (simp add: exNoTags_def)
  note u1 = updateAsset_tagsUndefined [OF exStore_asset exAsset_lists nt, of asciiLower 30]
  have 1: "fst (updateAsset asciiLower exStore (str ''a1'') exNoTags 30) = Inl TypeError"
    using u1 by simp
  have 2: "map_option s_tags
       (getAsset (snd (updateAsset asciiLower exStore (str ''a1'') exNoTags 30)) (str ''a1''))
       = Some None"
    using u1 by (simp add: getAsset_def update_conv')
  have 3: "fst (updateAsset asciiLower exStore (str ''a1'') exNoCollections 30)
       = Inr (Some (mergeAsset (stored exAsset) exNoCollections 30))"
    using updateAsset_effect [OF exStore_asset exAsset_lists exNoCollections_tags, of asciiLower 30]
    by simp
  have 4: "fst (updateAsset asciiLower
            (snd (updateAsset asciiLower exStore (str ''a1'') exNoCollections 30))
            (str ''a1'') exUpdates 40) = Inl TypeError"
    unfolding exBrokenStore_update [symmetric]
    by (simp add: updateAsset_noCollections [OF exBrokenStore_asset exBroken_lists])
  from exStore_asset 1 2 3 exBroken_lists(2) 4 show ?thesis by simp
qed

text \<open>
  Claim C5, amended. For an existing asset whose stored record has its tags and its
  collections, and any partial update that does not supply \<open>tags\<close> as \<open>undefined\<close>,
  \<open>updateAsset\<close> returns a record and stores that same record under the asset's key. The
  record has the identifier and the creation timestamp of the existing one, whatever the
  update supplies for them, and the clock reading as its update timestamp. Each other
  property has the supplied value when the caller supplied one (a property supplied as
  \<open>undefined\<close> is then missing from the record) and the value before the update when the
  caller left the property out. For an existing asset in any other case, \<open>updateAsset\<close>
  throws.
\<close>

theorem updateAsset_merge:
  assumes "getAsset s k = Some existing"
  shows "(s_tags existing \<noteq> None \<and> s_collections existing \<noteq> None \<and> u_tags updates \<noteq> Some None
     \<longrightarrow> (\<exists>merged s'. updateAsset lc s k updates now = (Inr (Some merged), s')
     \<and> getAsset s' k = Some merged
     \<and> s_id merged = s_id existing
     \<and> s_createdAt merged = s_createdAt existing
     \<and> s_updatedAt merged = now
     \<and> s_filename merged = (case u_filename updates of None \<Rightarrow> s_filename existing | Some v \<Rightarrow> v)
     \<and> s_mimeType merged = (case u_mimeType updates of None \<Rightarrow> s_mimeType existing | Some v \<Rightarrow> v)
     \<and> s_fileSize merged = (case u_fileSize updates of None \<Rightarrow> s_fileSize existing | Some v \<Rightarrow> v)
     \<and> s_duration merged = (case u_duration updates of None \<Rightarrow> s_duration existing | Some v \<Rightarrow> v)
     \<and> s_resolution merged
         = (case u_resolution updates of None \<Rightarrow> s_resolution existing | Some v \<Rightarrow> v)
     \<and> s_codec merged = (case u_codec updates of None \<Rightarrow> s_codec existing | Some v \<Rightarrow> v)
     \<and> s_title merged = (case u_title updates of None \<Rightarrow> s_title existing | Some v \<Rightarrow> v)
     \<and> s_description merged
         = (case u_description updates of None \<Rightarrow> s_description existing | Some v \<Rightarrow> v)
     \<and> s_tags merged = (case u_tags updates of None \<Rightarrow> s_tags existing | Some v \<Rightarrow> v)
     \<and> s_customMeta merged
         = (case u_customMeta updates of None \<Rightarrow> s_customMeta existing | Some v \<Rightarrow> v)
     \<and> s_minioKey merged = (case u_minioKey updates of None \<Rightarrow> s_minioKey existing | Some v \<Rightarrow> v)
     \<and> s_proxyKey merged = (case u_proxyKey updates of None \<Rightarrow> s_proxyKey existing | Some v \<Rightarrow> v)
     \<and> s_thumbnailKey merged
         = (case u_thumbnailKey updates of None \<Rightarrow> s_thumbnailKey existing | Some v \<Rightarrow> v)
     \<and> s_posterKey merged
         = (case u_posterKey updates of None \<Rightarrow> s_posterKey existing | Some v \<Rightarrow> v)
     \<and> s_proxyStatus merged
         = (case u_proxyStatus updates of None \<Rightarrow> s_proxyStatus existing | Some v \<Rightarrow> v)
     \<and> s_collections merged
         = (case u_collections updates of None \<Rightarrow> s_collections existing | Some v \<Rightarrow> v)))
   \<and> (s_tags existing = None \<or> s_collections existing = None \<or> u_tags updates = Some None
        \<longrightarrow> fst (updateAsset lc s k updates now) = Inl TypeError)"
proof (intro conjI impI)
  assume h: "s_tags existing \<noteq> None \<and> s_collections existing \<noteq> None
             \<and> u_tags updates \<noteq> Some None"
  then obtain ets ecs where ets: "s_tags existing = Some ets"
    and ecs: "s_collections existing = Some ecs" by auto
  from h have t: "u_tags updates \<noteq> Some None" by simp
  obtain r s' where u: "updateAsset lc s k updates now = (r, s')"
    by (cases "updateAsset lc s k updates now")
  have r: "r = Inr (Some (mergeAsset existing updates now))"
    using updateAsset_effect [OF assms ets ecs t, of lc now] u by simp
  have g: "getAsset s' k = Some (mergeAsset existing updates now)"
    using getAsset_updateAsset [OF assms ets ecs t, of lc now k] u by simp
  show "\<exists>merged s'. updateAsset lc s k updates now = (Inr (Some merged), s')
     \<and> getAsset s' k = Some merged
     \<and> s_id merged = s_id existing
     \<and> s_createdAt merged = s_createdAt existing
     \<and> s_updatedAt merged = now
     \<and> s_filename merged = (case u_filename updates of None \<Rightarrow> s_filename existing | Some v \<Rightarrow> v)
     \<and> s_mimeType merged = (case u_mimeType updates of None \<Rightarrow> s_mimeType existing | Some v \<Rightarrow> v)
     \<and> s_fileSize merged = (case u_fileSize updates of None \<Rightarrow> s_fileSize existing | Some v \<Rightarrow> v)
     \<and> s_duration merged = (case u_duration updates of None \<Rightarrow> s_duration existing | Some v \<Rightarrow> v)
     \<and> s_resolution merged
         = (case u_resolution updates of None \<Rightarrow> s_resolution existing | Some v \<Rightarrow> v)
     \<and> s_codec merged = (case u_codec updates of None \<Rightarrow> s_codec existing | Some v \<Rightarrow> v)
     \<and> s_title merged = (case u_title updates of None \<Rightarrow> s_title existing | Some v \<Rightarrow> v)
     \<and> s_description merged
         = (case u_description updates of None \<Rightarrow> s_description existing | Some v \<Rightarrow> v)
     \<and> s_tags merged = (case u_tags updates of None \<Rightarrow> s_tags existing | Some v \<Rightarrow> v)
     \<and> s_customMeta merged
         = (case u_customMeta updates of None \<Rightarrow> s_customMeta existing | Some v \<Rightarrow> v)
     \<and> s_minioKey merged = (case u_minioKey updates of None \<Rightarrow> s_minioKey existing | Some v \<Rightarrow> v)
     \<and> s_proxyKey merged = (case u_proxyKey updates of None \<Rightarrow> s_proxyKey existing | Some v \<Rightarrow> v)
     \<and> s_thumbnailKey merged
         = (case u_thumbnailKey updates of None \<Rightarrow> s_thumbnailKey existing | Some v \<Rightarrow> v)
     \<and> s_posterKey merged
         = (case u_posterKey updates of None \<Rightarrow> s_posterKey existing | Some v \<Rightarrow> v)
     \<and> s_proxyStatus merged
         = (case u_proxyStatus updates of None \<Rightarrow> s_proxyStatus existing | Some v \<Rightarrow> v)
     \<and> s_collections merged
         = (case u_collections updates of None \<Rightarrow> s_collections existing | Some v \<Rightarrow> v)"
    apply (rule exI [of _ "mergeAsset existing updates now"])
    apply (rule exI [of _ s'])
    using u r g by (simp add: mergeAsset_def spread_def)
next
  assume h: "s_tags existing = None \<or> s_collections existing = None \<or> u_tags updates = Some None"
  show "fst (updateAsset lc s k updates now) = Inl TypeError"
  proof (cases "s_tags existing")
    case None
    with assms show ?thesis by (simp add: updateAsset_noTags)
  next
    case tags: (Some ets)
    show ?thesis
    proof (cases "s_collections existing")
      case None
      with assms tags show ?thesis by (simp add: updateAsset_noCollections)
    next
      case (Some ecs)
      with h tags have "u_tags updates = Some None" by simp
      from updateAsset_tagsUndefined [OF assms tags Some this] show ?thesis by simp
    qed
  qed
qed

theorem updateAsset_merge_witness:
  "getAsset exStore (str ''a1'') = Some (stored exAsset)
   \<and> s_tags (stored exAsset) \<noteq> None \<and> s_collections (stored exAsset) \<noteq> None
   \<and> u_tags exUpdates \<noteq> Some None
   \<and> (\<exists>merged s'. updateAsset asciiLower exStore (str ''a1'') exUpdates 30 = (Inr (Some merged), s')
        \<and> getAsset s' (str ''a1'') = Some merged
        \<and> s_id merged = str ''a1'' \<and> s_createdAt merged = 20 \<and> s_updatedAt merged = 30
        \<and> s_title merged = Some (str ''Sintel'')
        \<and> s_tags merged = Some [str ''animation'', str ''Demo''])
   \<and> getAsset exBrokenStore (str ''a1'') = Some (mergeAsset (stored exAsset) exNoCollections 30)
   \<and> s_collections (mergeAsset (stored exAsset) exNoCollections 30) = None
   \<and> fst (updateAsset asciiLower exBrokenStore (str ''a1'') exUpdates 40) = Inl TypeError"
proof -
  note h = exStore_asset
  have l: "s_tags (stored exAsset) \<noteq> None" "s_collections (stored exAsset) \<noteq> None"
    by (simp_all add: exAsset_lists)
  have t: "u_tags exUpdates \<noteq> Some None" by (simp add: exUpdates_def noUpdates_def)
  from updateAsset_merge [OF h, of exUpdates asciiLower 30] l t
  obtain merged s' where
    "updateAsset asciiLower exStore (str ''a1'') exUpdates 30 = (Inr (Some merged), s')"
    "getAsset s' (str ''a1'') = Some merged"
    "s_id merged = str ''a1''" "s_createdAt merged = 20" "s_updatedAt merged = 30"
    "s_title merged = Some (str ''Sintel'')" "s_tags merged = Some [str ''animation'', str ''Demo'']"
    by (auto simp: exUpdates_def noUpdates_def exAsset_def exInput_def stored_def
          asset_input.defs asset.defs)
  moreover have "fst (updateAsset asciiLower exBrokenStore (str ''a1'') exUpdates 40) = Inl TypeError"
    using updateAsset_merge [OF exBrokenStore_asset, of exUpdates asciiLower 40] exBroken_lists(2)
    by simp
  ultimately show ?thesis using h l t exBrokenStore_asset exBroken_lists(2) by blast
qed

section \<open>addAssetToCollection twice\<close>

text \<open>The store that a call of a relationship function leaves: the store it returns, or
  the store as it was when the call throws.\<close>

definition storeAfter :: "store \<Rightarrow> error + store \<Rightarrow> store" where
  "storeAfter s r = (case r of Inl e \<Rightarrow> s | Inr s' \<Rightarrow> s')"

text \<open>
  Claim C4. For an existing collection and an existing asset, calling
  \<open>addAssetToCollection\<close> again on the store that a first call left leaves that very
  store: the membership set, the asset's \<open>collections\<close> field, the collection's count and
  everything else are what the first call made them. When the asset's record has its
  \<open>collections\<close> both calls succeed (otherwise both throw and change nothing).
\<close>

theorem addAssetToCollection_idempotent:
  assumes "getCollection s c \<noteq> None" and "getAsset s a \<noteq> None"
  shows "storeAfter (storeAfter s (addAssetToCollection s c a t1 t2))
           (addAssetToCollection (storeAfter s (addAssetToCollection s c a t1 t2)) c a t3 t4)
         = storeAfter s (addAssetToCollection s c a t1 t2)
     \<and> (\<forall>r. getAsset s a = Some r \<and> s_collections r \<noteq> None
          \<longrightarrow> (\<exists>s1. addAssetToCollection s c a t1 t2 = Inr s1
                 \<and> addAssetToCollection s1 c a t3 t4 = Inr s1))"
  using assms
  by (auto simp: addAssetToCollection_def getCollection_def getAsset_def sismember_def
        sadd_def update_conv' storeAfter_def split: option.splits)

theorem addAssetToCollection_idempotent_witness:
  "getCollection exStore (str ''c1'') \<noteq> None \<and> getAsset exStore (str ''a1'') \<noteq> None
   \<and> getAsset exStore (str ''a1'') = Some (stored exAsset)
   \<and> s_collections (stored exAsset) \<noteq> None
   \<and> (\<exists>s1. addAssetToCollection exStore (str ''c1'') (str ''a1'') 30 31 = Inr s1
          \<and> addAssetToCollection s1 (str ''c1'') (str ''a1'') 40 41 = Inr s1)"
proof -
  have h1: "getCollection exStore (str ''c1'') \<noteq> None" by (rule exStore_collection)
  have h2: "getAsset exStore (str ''a1'') \<noteq> None" by (simp add: exStore_asset)
  have h3: "s_collections (stored exAsset) \<noteq> None" by simp
  from addAssetToCollection_idempotent [OF h1 h2, of 30 31 40 41] exStore_asset h1 h2 h3
  show ?thesis by blast
qed

section \<open>The member count of a collection\<close>

fun membershipOp :: "op \<Rightarrow> bool" where
  "membershipOp (AddAssetToCollection c a now1 now2) = True"
| "membershipOp (RemoveAssetFromCollection c a now1 now2) = True"
| "membershipOp _ = False"

lemma membership_step_nonneg:
  assumes "membershipOp x" and "getCollection s c = Some col" and "0 \<le> assetCount col"
  shows "\<exists>col'. getCollection (step lc s x) c = Some col' \<and> 0 \<le> assetCount col'"
  using assms
  by (cases x)
     (auto simp: addAssetToCollection_def removeAssetFromCollection_def getCollection_def
        update_conv' split: option.splits)

lemma membership_run_nonneg:
  "list_all membershipOp ops \<Longrightarrow> getCollection s c = Some col \<Longrightarrow> 0 \<le> assetCount col \<Longrightarrow>
   \<exists>col'. getCollection (run lc s ops) c = Some col' \<and> 0 \<le> assetCount col'"
proof (induction ops arbitrary: s col)
  case Nil
  then show ?case by simp
next
  case (Cons x xs)
  from Cons.prems obtain col1 where
    "getCollection (step lc s x) c = Some col1" "0 \<le> assetCount col1"
    using membership_step_nonneg [of x s c col lc] by auto
  with Cons.IH [of "step lc s x" col1] Cons.prems(1) show ?case by simp
qed

lemma removeAssetFromCollection_clamps:
  assumes "getCollection s c = Some col" and "getAsset s a = Some x"
    and "s_collections x \<noteq> None"
    and "sismember (assetsByCollection s c) a" and "assetCount col = 0"
  shows "\<exists>s' col'. removeAssetFromCollection s c a now1 now2 = Inr s'
           \<and> getCollection s' c = Some col' \<and> assetCount col' = 0"
  using assms
  by (auto simp: removeAssetFromCollection_def getCollection_def update_conv')

text \<open>
  Claim C10. A collection whose stored count is not negative keeps a count that is not
  negative through every sequence of \<open>addAssetToCollection\<close> and
  \<open>removeAssetFromCollection\<close> calls (on any collections and assets, throwing or not).
  And \<open>removeAssetFromCollection\<close> of a member (whose record has its \<open>collections\<close>, so
  that the call does not throw) from a collection whose stored count is already zero
  leaves the count at zero.
\<close>

theorem assetCount_never_negative:
  assumes "list_all membershipOp ops" and "getCollection s c = Some col"
    and "0 \<le> assetCount col"
  shows "(\<exists>col'. getCollection (run lc s ops) c = Some col' \<and> 0 \<le> assetCount col')
     \<and> (\<forall>a x now1 now2. getAsset s a = Some x \<and> s_collections x \<noteq> None
            \<and> sismember (assetsByCollection s c) a \<and> assetCount col = 0
          \<longrightarrow> (\<exists>s' col'. removeAssetFromCollection s c a now1 now2 = Inr s'
                 \<and> getCollection s' c = Some col' \<and> assetCount col' = 0))"
  using membership_run_nonneg [OF assms] removeAssetFromCollection_clamps [OF assms(2)]
  by blast

theorem assetCount_never_negative_witness:
  "list_all membershipOp exCalls
   \<and> getCollection exMemberStore (str ''c1'') = Some exCollection
   \<and> 0 \<le> assetCount exCollection
   \<and> sismember (assetsByCollection exMemberStore (str ''c1'')) (str ''a2'')
   \<and> assetCount exCollection = 0
   \<and> (\<exists>col'. getCollection (run asciiLower exMemberStore exCalls) (str ''c1'') = Some col'
         \<and> 0 \<le> assetCount col')
   \<and> (\<exists>s' col'. removeAssetFromCollection exMemberStore (str ''c1'') (str ''a2'') 30 31 = Inr s'
         \<and> getCollection s' (str ''c1'') = Some col' \<and> assetCount col' = 0)"
proof -
  have h1: "list_all membershipOp exCalls" by (simp add: exCalls_def)
  note h2 = exMemberStore_collection
  have h3: "0 \<le> assetCount exCollection" and z: "assetCount exCollection = 0"
    by (simp_all add: exCollection_def)
  note h4 = exMemberStore_asset
  have h4': "s_collections (stored (asset_input.extend (exInput\<lparr>collections := [str ''c1'']\<rparr>)
                       (asset.fields (str ''a2'') 20 20))) \<noteq> None" by simp
  note h5 = exMemberStore_member
  from assetCount_never_negative [OF h1 h2 h3, of asciiLower] h1 h2 h3 h4 h4' h5 z
  show ?thesis by blast
qed

section \<open>Polling a job until it is terminal\<close>

text \<open>The time on the clock of \<open>waitForFfmpegJob\<close> when it enters its loop for the
  \<open>k\<close>-th time, provided no earlier query found a terminal status.\<close>

primrec elapsedAt :: "job \<Rightarrow> nat \<Rightarrow> nat" where
  "elapsedAt j 0 = 0"
| "elapsedAt j (Suc k) = elapsedAt j k + queryMs j k + FFMPEG_POLL_INTERVAL_MS"

lemma waitLoop_range: "waitLoop j m k e \<in> set terminalStatuses \<union> {str ''timeout''}"
proof (induction j m k e rule: waitLoop.induct)
  case (1 j m k e)
  show ?case
  proof (cases "int e < m")
    case False
    then show ?thesis by (subst waitLoop.simps) simp
  next
    case True
    show ?thesis
    proof (cases "getFfmpegJobStatus (queries j k) \<in> set terminalStatuses")
      case t: True
      with True show ?thesis by (subst waitLoop.simps) (simp add: Let_def)
    next
      case f: False
      with True "1.IH" show ?thesis by (subst waitLoop.simps) (simp add: Let_def)
    qed
  qed
qed

lemma waitLoop_skip:
  "int (elapsedAt j k) < m \<Longrightarrow>
   (\<forall>i<k. getFfmpegJobStatus (queries j i) \<notin> set terminalStatuses) \<Longrightarrow>
   waitLoop j m 0 0 = waitLoop j m k (elapsedAt j k)"
proof (induction k)
  case 0
  then show ?case by simp
next
  case (Suc k)
  have lt: "int (elapsedAt j k) < m" using Suc.prems(1) by simp
  have "waitLoop j m 0 0 = waitLoop j m k (elapsedAt j k)"
    using Suc.IH lt Suc.prems(2) by simp
  also have "\<dots> = waitLoop j m (Suc k) (elapsedAt j (Suc k))"
    using lt Suc.prems(2) by (subst waitLoop.simps) (simp add: Let_def)
  finally show ?case .
qed

lemma waitLoop_timeout:
  "e = elapsedAt j k \<Longrightarrow>
   (\<forall>i. int (elapsedAt j i) < m \<longrightarrow> getFfmpegJobStatus (queries j i) \<notin> set terminalStatuses)
   \<Longrightarrow> waitLoop j m k e = str ''timeout''"
proof (induction j m k e rule: waitLoop.induct)
  case (1 j m k e)
  show ?case
  proof (cases "int e < m")
    case False
    then show ?thesis by (subst waitLoop.simps) simp
  next
    case True
    then have nt: "getFfmpegJobStatus (queries j k) \<notin> set terminalStatuses"
      using "1.prems" by simp
    have "waitLoop j m k e = waitLoop j m (Suc k) (e + queryMs j k + FFMPEG_POLL_INTERVAL_MS)"
      using True nt by (subst waitLoop.simps) (simp add: Let_def)
    also have "\<dots> = str ''timeout''"
      using "1.IH"[OF True refl nt] "1.prems" by simp
    finally show ?thesis .
  qed
qed

text \<open>
  Claim C9. \<open>waitForFfmpegJob\<close> cannot throw: the only calls of its body that can are
  inside the \<open>try\<close> of \<open>getFfmpegJobStatus\<close>, so the function is total and its result is
  a status string. For every job and every bound, (1) the result is \<open>Complete\<close>,
  \<open>Failed\<close>, \<open>Error\<close> or \<open>timeout\<close>; (2) when the \<open>k\<close>-th query is made before the bound
  has elapsed and is the first to find a terminal status, the result is that status;
  (3) when no query made before the bound has elapsed finds a terminal status, the result
  is \<open>timeout\<close>; (4) a status query that throws yields \<open>unknown\<close>, and (5) the loop then
  goes on to the next query after the poll interval.
\<close>

theorem waitForFfmpegJob_terminal_or_timeout:
  "waitForFfmpegJob j maxWaitMs \<in> set terminalStatuses \<union> {str ''timeout''}
   \<and> (\<forall>k. int (elapsedAt j k) < maxWaitMs
          \<and> getFfmpegJobStatus (queries j k) \<in> set terminalStatuses
          \<and> (\<forall>i<k. getFfmpegJobStatus (queries j i) \<notin> set terminalStatuses)
        \<longrightarrow> waitForFfmpegJob j maxWaitMs = getFfmpegJobStatus (queries j k))
   \<and> ((\<forall>k. int (elapsedAt j k) < maxWaitMs
          \<longrightarrow> getFfmpegJobStatus (queries j k) \<notin> set terminalStatuses)
        \<longrightarrow> waitForFfmpegJob j maxWaitMs = str ''timeout'')
   \<and> getFfmpegJobStatus QueryThrows = str ''unknown''
   \<and> (\<forall>k e. queries j k = QueryThrows \<and> int e < maxWaitMs
        \<longrightarrow> waitLoop j maxWaitMs k e
            = waitLoop j maxWaitMs (Suc k) (e + queryMs j k + FFMPEG_POLL_INTERVAL_MS))"
proof (intro conjI allI impI)
  show "waitForFfmpegJob j maxWaitMs \<in> set terminalStatuses \<union> {str ''timeout''}"
    unfolding waitForFfmpegJob_def by (rule waitLoop_range)
next
  fix k
  assume h: "int (elapsedAt j k) < maxWaitMs
          \<and> getFfmpegJobStatus (queries j k) \<in> set terminalStatuses
          \<and> (\<forall>i<k. getFfmpegJobStatus (queries j i) \<notin> set terminalStatuses)"
  then have "waitLoop j maxWaitMs 0 0 = waitLoop j maxWaitMs k (elapsedAt j k)"
    by (intro waitLoop_skip) auto
  also have "\<dots> = getFfmpegJobStatus (queries j k)"
    using h by (subst waitLoop.simps) (simp add: Let_def)
  finally show "waitForFfmpegJob j maxWaitMs = getFfmpegJobStatus (queries j k)"
    by (simp add: waitForFfmpegJob_def)
next
  assume "\<forall>k. int (elapsedAt j k) < maxWaitMs
          \<longrightarrow> getFfmpegJobStatus (queries j k) \<notin> set terminalStatuses"
  then show "waitForFfmpegJob j maxWaitMs = str ''timeout''"
    unfolding waitForFfmpegJob_def by (intro waitLoop_timeout) auto
next
  show "getFfmpegJobStatus QueryThrows = str ''unknown''"
    by (simp add: getFfmpegJobStatus_def)
next
  fix k e
  assume "queries j k = QueryThrows \<and> int e < maxWaitMs"
  then show "waitLoop j maxWaitMs k e
            = waitLoop j maxWaitMs (Suc k) (e + queryMs j k + FFMPEG_POLL_INTERVAL_MS)"
    by (subst waitLoop.simps)
       (simp add: Let_def getFfmpegJobStatus_def terminalStatuses_def str_def)
qed

theorem waitForFfmpegJob_terminal_or_timeout_witness:
  "int (elapsedAt exJob 2) < 300000
   \<and> getFfmpegJobStatus (queries exJob 2) \<in> set terminalStatuses
   \<and> getFfmpegJobStatus (queries exJob 0) \<notin> set terminalStatuses
   \<and> getFfmpegJobStatus (queries exJob 1) \<notin> set terminalStatuses
   \<and> queries exJob 0 = QueryThrows
   \<and> waitForFfmpegJob exJob 300000 = str ''Complete''"
proof -
  have e: "int (elapsedAt exJob 2) < 300000"
    by (simp add: numeral_2_eq_2 exJob_def FFMPEG_POLL_INTERVAL_MS_def)
  have q0: "queries exJob 0 = QueryThrows"
    by (simp add: exJob_def)
  have s0: "getFfmpegJobStatus (queries exJob 0) \<notin> set terminalStatuses"
    by (simp add: exJob_def getFfmpegJobStatus_def terminalStatuses_def str_def)
  have s1: "getFfmpegJobStatus (queries exJob 1) \<notin> set terminalStatuses"
    by (simp add: exJob_def getFfmpegJobStatus_def terminalStatuses_def str_def)
  have s2: "getFfmpegJobStatus (queries exJob 2) = str ''Complete''"
    by (simp add: exJob_def getFfmpegJobStatus_def)
  have t2: "getFfmpegJobStatus (queries exJob 2) \<in> set terminalStatuses"
    unfolding s2 by (simp add: terminalStatuses_def)
  have two: "i = 0 \<or> i = 1" if "i < 2" for i :: nat
    using that by arith
  have nt: "\<forall>i<2. getFfmpegJobStatus (queries exJob i) \<notin> set terminalStatuses"
    using two s0 s1 by blast
  have "waitForFfmpegJob exJob 300000 = getFfmpegJobStatus (queries exJob 2)"
    using waitForFfmpegJob_terminal_or_timeout [of exJob 300000] e t2 nt by blast
  then show ?thesis
    using e q0 s0 s1 s2 t2 by simp
qed

section \<open>deleteAsset\<close>

text \<open>The score of a member of a score-ordered set, zero for a member it does not have.\<close>

definition scoreOf :: "('a \<rightharpoonup> int) \<Rightarrow> 'a \<Rightarrow> int" where
  "scoreOf m k = (case m k of None \<Rightarrow> 0 | Some v \<Rightarrow> v)"

lemma zincrby_apply:
  "zincrby d k m T = (if T = k then Some (scoreOf m T + d) else m T)"
  by (simp add: zincrby_def scoreOf_def split: option.splits)

lemma scoreOf_zincrby:
  "scoreOf (zincrby d k m) T = scoreOf m T + (if T = k then d else 0)"
  by (simp add: zincrby_def scoreOf_def split: option.splits)

lemma zincrbyEach_apply:
  "zincrbyEach d ks m T =
     (if T \<in> set ks then Some (scoreOf m T + d * int (count_list ks T)) else m T)"
proof (induction ks arbitrary: m)
  case Nil
  show ?case by (simp add: zincrbyEach_def)
next
  case (Cons k ks)
  have "zincrbyEach d (k # ks) m T = zincrbyEach d ks (zincrby d k m) T"
    by (simp add: zincrbyEach_def)
  also have "\<dots> = (if T \<in> set ks
       then Some (scoreOf (zincrby d k m) T + d * int (count_list ks T))
       else zincrby d k m T)"
    by (rule Cons.IH)
  also have "\<dots> = (if T \<in> set (k # ks)
       then Some (scoreOf m T + d * int (count_list (k # ks) T)) else m T)"
    by (simp add: scoreOf_zincrby zincrby_apply algebra_simps)
  finally show ?case .
qed

lemma scoreOf_zincrbyEach:
  "scoreOf (zincrbyEach d ks m) T = scoreOf m T + d * int (count_list ks T)"
  by (simp add: scoreOf_def [of "zincrbyEach d ks m"] zincrbyEach_apply)
     (simp add: scoreOf_def)

lemma tagsAll_deleteAsset:
  assumes "getAsset s k = Some a" and "s_tags a = Some ts" and "s_collections a = Some cs"
  shows "tagsAll (snd (deleteAsset lc s k)) T =
     (let v = scoreOf (tagsAll s) T - int (count_list (map lc ts) T)
      in if 0 < v then Some v else None)"
  using deleteAsset_effect [OF assms, of lc]
  by (simp add: Let_def zremrangebyscore_def zincrbyEach_apply)
     (simp add: scoreOf_def split: option.splits)

lemma exOps_fresh: "freshRun asciiLower emptyStore exOps"
  by (simp add: exOps_def getCollection_createCollection)
     (simp add: emptyStore_def getCollection_def getAsset_def createCollection_def Let_def)

lemma exOps_defined: "list_all listsDefinedOp exOps"
  by (simp add: exOps_def)

lemma exStore_run: "exStore = run asciiLower emptyStore exOps"
  by (simp add: exStore_def)











section \<open>deleteCollection\<close>



section \<open>Tag usage counters\<close>

text \<open>
  \<open>liveWithTag\<close> counts the live assets whose case-folded tags contain a string (a record
  without tags has none). \<open>tagsDistinctOp\<close> holds of a call that supplies no tag list, or
  a tag list with no two tags of the same case-folded form; it does not hold of an update
  that supplies \<open>tags\<close> as \<open>undefined\<close>. \<open>withTag\<close> is the set that \<open>liveWithTag\<close>
  counts.
\<close>

definition liveWithTag :: "(jsstring \<Rightarrow> jsstring) \<Rightarrow> store \<Rightarrow> jsstring \<Rightarrow> nat" where
  "liveWithTag lc s T = length (filter (\<lambda>ka. T \<in> set (map lc (tagsOf (snd ka)))) (assetKeys s))"

fun tagsDistinctOp :: "(jsstring \<Rightarrow> jsstring) \<Rightarrow> op \<Rightarrow> bool" where
  "tagsDistinctOp lc (CreateAsset uid now score input) = distinct (map lc (tags input))"
| "tagsDistinctOp lc (UpdateAsset k updates now) =
     (case u_tags updates of
        None \<Rightarrow> True
      | Some None \<Rightarrow> False
      | Some (Some ts) \<Rightarrow> distinct (map lc ts))"
| "tagsDistinctOp lc _ = True"

definition withTag :: "(jsstring \<Rightarrow> jsstring) \<Rightarrow> store \<Rightarrow> jsstring \<Rightarrow> jsstring set" where
  "withTag lc s T = {k. \<exists>a. getAsset s k = Some a \<and> T \<in> set (map lc (tagsOf a))}"

definition tagInv :: "(jsstring \<Rightarrow> jsstring) \<Rightarrow> store \<Rightarrow> bool" where
  "tagInv lc s =
     (distinct (map fst (assetKeys s))
      \<and> (\<forall>k a. getAsset s k = Some a \<longrightarrow> s_tags a \<noteq> None \<and> distinct (map lc (tagsOf a)))
      \<and> (\<forall>T. scoreOf (tagsAll s) T = int (card (withTag lc s T))))"

lemma finite_withTag [simp]: "finite (withTag lc s T)"
proof (rule finite_subset)
  show "withTag lc s T \<subseteq> dom (map_of (assetKeys s))"
    by (auto simp: withTag_def getAsset_def)
  show "finite (dom (map_of (assetKeys s)))" by (rule finite_dom_map_of)
qed

lemma count_where_card:
  "distinct (map fst al) \<Longrightarrow>
   length (filter (\<lambda>ka. P (snd ka)) al) = card {k. \<exists>a. map_of al k = Some a \<and> P a}"
proof (induction al)
  case Nil
  then show ?case by simp
next
  case (Cons x al)
  obtain k a where x: "x = (k, a)" by (cases x)
  have nk: "map_of al k = None" using Cons.prems x by (simp add: map_of_eq_None_iff)
  have fin: "finite {k'. \<exists>a'. map_of al k' = Some a' \<and> P a'}"
    by (rule finite_subset [OF _ finite_dom_map_of [of al]]) auto
  have notin: "k \<notin> {k'. \<exists>a'. map_of al k' = Some a' \<and> P a'}" using nk by simp
  have "{k'. \<exists>a'. map_of (x # al) k' = Some a' \<and> P a'}
      = (if P a then insert k {k'. \<exists>a'. map_of al k' = Some a' \<and> P a'}
         else {k'. \<exists>a'. map_of al k' = Some a' \<and> P a'})"
    using nk by (auto simp: x)
  then show ?case using Cons fin notin by (simp add: x)
qed

lemma liveWithTag_card:
  "distinct (map fst (assetKeys s)) \<Longrightarrow> liveWithTag lc s T = card (withTag lc s T)"
  unfolding liveWithTag_def withTag_def getAsset_def by (rule count_where_card)

lemma count_list_distinct:
  "distinct xs \<Longrightarrow> count_list xs x = (if x \<in> set xs then 1 else 0)"
  by (induction xs) auto

lemma count_list_filter':
  "count_list (filter P xs) x = (if P x then count_list xs x else 0)"
  by (induction xs) auto

lemma tagInv_emptyStore: "tagInv lc emptyStore"
  by (simp add: tagInv_def emptyStore_def getAsset_def scoreOf_def withTag_def)

lemma tagInvD:
  assumes "tagInv lc s" and "getAsset s k = Some a"
  shows "\<exists>ts. s_tags a = Some ts \<and> tagsOf a = ts \<and> distinct (map lc ts)"
proof -
  from assms have "s_tags a \<noteq> None \<and> distinct (map lc (tagsOf a))"
    unfolding tagInv_def by blast
  then show ?thesis by (auto simp: tagsOf_def)
qed

subsection \<open>Commands that leave the tags alone\<close>

lemma tagInv_same_tags:
  assumes "tagInv lc s" and "distinct (map fst (assetKeys s'))"
    and "tagsAll s' = tagsAll s"
    and "\<And>k. map_option s_tags (getAsset s' k) = map_option s_tags (getAsset s k)"
  shows "tagInv lc s'"
proof -
  have g: "(\<exists>a. getAsset s' k = Some a \<and> P (s_tags a)) \<longleftrightarrow> (\<exists>a. getAsset s k = Some a \<and> P (s_tags a))"
    for k and P :: "jsstring list option \<Rightarrow> bool"
    using assms(4) [of k] by (cases "getAsset s' k"; cases "getAsset s k") auto
  have w: "withTag lc s' T = withTag lc s T" for T
    unfolding withTag_def tagsOf_def
    using g [of _ "\<lambda>ts. T \<in> set (map lc (case ts of None \<Rightarrow> [] | Some ts \<Rightarrow> ts))"] by simp
  have t: "s_tags a \<noteq> None \<and> distinct (map lc (tagsOf a))" if "getAsset s' k = Some a" for k a
  proof -
    from that g [of k "\<lambda>ts. ts = s_tags a"] obtain a0 where
      a0: "getAsset s k = Some a0" "s_tags a0 = s_tags a" by auto
    from assms(1) a0(1) have "s_tags a0 \<noteq> None \<and> distinct (map lc (tagsOf a0))"
      unfolding tagInv_def by blast
    then show ?thesis by (simp add: tagsOf_def a0(2))
  qed
  show ?thesis
    unfolding tagInv_def using assms(1,2,3) w t by (auto simp: tagInv_def)
qed

lemma tagInv_searchWord:
  "tagInv lc s \<Longrightarrow> tagInv lc (s\<lparr>searchWord := f\<rparr>)"
  by (rule tagInv_same_tags [of lc s]) (simp_all add: tagInv_def getAsset_def)

subsection \<open>createAsset\<close>

lemma withTag_createAsset:
  "getAsset s uid = None \<Longrightarrow>
   withTag lc (snd (createAsset lc s uid now score input)) T
     = (if T \<in> set (map lc (tags input)) then insert uid (withTag lc s T) else withTag lc s T)"
  by (auto simp: withTag_def getAsset_createAsset tagsOf_def asset_input.defs asset.defs
        split: if_splits)

lemma tagInv_createAsset:
  assumes "tagInv lc s" and "getAsset s uid = None" and "distinct (map lc (tags input))"
  shows "tagInv lc (snd (createAsset lc s uid now score input))"
proof -
  let ?s' = "snd (createAsset lc s uid now score input)"
  note e = createAsset_effect [of lc s uid now score input]
  have d: "distinct (map fst (assetKeys ?s'))"
    using assms(1) by (simp add: tagInv_def e distinct_update)
  have t: "s_tags a \<noteq> None \<and> distinct (map lc (tagsOf a))" if "getAsset ?s' k = Some a" for k a
    using that assms
    by (auto simp: tagInv_def getAsset_createAsset tagsOf_def asset_input.defs asset.defs
          split: if_splits)
  have notin: "uid \<notin> withTag lc s T" for T using assms(2) by (simp add: withTag_def)
  have c: "scoreOf (tagsAll ?s') T = int (card (withTag lc ?s' T))" for T
    using assms notin [of T]
    by (simp add: tagInv_def e scoreOf_zincrbyEach withTag_createAsset count_list_distinct)
  from d t c show ?thesis unfolding tagInv_def by blast
qed

subsection \<open>updateAsset\<close>

lemma withTag_updateAsset:
  assumes "getAsset s k = Some existing"
    and "s_tags existing = Some ets" and "s_collections existing = Some ecs"
    and "u_tags updates \<noteq> Some None"
  shows "withTag lc (snd (updateAsset lc s k updates now)) T
     = (if T \<in> set (map lc (tagsOf (mergeAsset existing updates now)))
        then insert k (withTag lc s T) else withTag lc s T - {k})"
  by (auto simp: withTag_def getAsset_updateAsset [OF assms] split: if_splits)

lemma tagInv_updateAsset:
  assumes "tagInv lc s"
    and "case u_tags updates of None \<Rightarrow> True | Some None \<Rightarrow> False
         | Some (Some ts) \<Rightarrow> distinct (map lc ts)"
  shows "tagInv lc (snd (updateAsset lc s k updates now))"
proof (cases "getAsset s k")
  case None
  with assms show ?thesis by simp
next
  case (Some existing)
  let ?s' = "snd (updateAsset lc s k updates now)"
  let ?m = "mergeAsset existing updates now"
  from tagInvD [OF assms(1) Some] obtain ets where ets: "s_tags existing = Some ets"
    and et: "tagsOf existing = ets" and dold: "distinct (map lc ets)" by blast
  show ?thesis
  proof (cases "s_collections existing")
    case None
    show ?thesis
      unfolding updateAsset_noCollections [OF Some ets None]
      using assms(1) by (simp add: tagInv_searchWord)
  next
    case ecs: (Some ecs)
    have u: "u_tags updates \<noteq> Some None" using assms(2) by auto
    note e = updateAsset_effect [OF Some ets ecs u, of lc now]
    note g = getAsset_updateAsset [OF Some ets ecs u, of lc now]
    have mt: "s_tags ?m \<noteq> None"
      using u ets coalesce_Some [of "u_tags updates" ets]
      by (auto simp: mergeAsset_lists spread_coalesce)
    have dnew: "distinct (map lc (tagsOf ?m))"
      using assms(2) dold ets
      by (simp add: tagsOf_def mergeAsset_lists spread_def split: option.splits)
    have d: "distinct (map fst (assetKeys ?s'))"
      using assms(1) by (simp add: tagInv_def e distinct_update)
    have t: "s_tags a \<noteq> None \<and> distinct (map lc (tagsOf a))" if "getAsset ?s' k' = Some a" for k' a
      using that assms(1) dnew mt by (auto simp: tagInv_def g split: if_splits)
    have mem: "k \<in> withTag lc s T \<longleftrightarrow> T \<in> set (map lc ets)" for T
      using Some et by (simp add: withTag_def)
    have c: "scoreOf (tagsAll ?s') T = int (card (withTag lc ?s' T))" for T
    proof -
      have inv: "scoreOf (tagsAll s) T = int (card (withTag lc s T))"
        using assms(1) by (simp add: tagInv_def)
      have pos: "k \<in> withTag lc s T \<Longrightarrow> 0 < card (withTag lc s T)"
        by (auto simp: card_gt_0_iff)
      show ?thesis
        using inv mem [of T] pos dold dnew
        by (auto simp: e scoreOf_zincrbyEach withTag_updateAsset [OF Some ets ecs u]
              count_list_filter' count_list_distinct card_insert_if card_Diff_singleton_if
              simp del: set_map)
    qed
    from d t c show ?thesis unfolding tagInv_def by blast
  qed
qed

subsection \<open>deleteAsset\<close>

lemma withTag_deleteAsset:
  assumes "getAsset s k = Some a" and "s_tags a = Some ts" and "s_collections a = Some cs"
  shows "withTag lc (snd (deleteAsset lc s k)) T = withTag lc s T - {k}"
  by (auto simp: withTag_def getAsset_deleteAsset [OF assms] split: if_splits)

lemma tagInv_deleteAsset:
  assumes "tagInv lc s"
  shows "tagInv lc (snd (deleteAsset lc s k))"
proof (cases "getAsset s k")
  case None
  with assms show ?thesis by simp
next
  case (Some a)
  let ?s' = "snd (deleteAsset lc s k)"
  from tagInvD [OF assms Some] obtain ts where ts: "s_tags a = Some ts"
    and et: "tagsOf a = ts" and dold: "distinct (map lc ts)" by blast
  show ?thesis
  proof (cases "s_collections a")
    case None
    show ?thesis
      unfolding deleteAsset_noCollections [OF Some ts None]
      using assms by (simp add: tagInv_searchWord)
  next
    case cs: (Some cs)
    note e = deleteAsset_effect [OF Some ts cs, of lc]
    note g = getAsset_deleteAsset [OF Some ts cs, of lc]
    have d: "distinct (map fst (assetKeys ?s'))"
      using assms by (simp add: tagInv_def e distinct_delete)
    have t: "s_tags a' \<noteq> None \<and> distinct (map lc (tagsOf a'))" if "getAsset ?s' k' = Some a'" for k' a'
      using that assms by (auto simp: tagInv_def g split: if_splits)
    have mem: "k \<in> withTag lc s T \<longleftrightarrow> T \<in> set (map lc ts)" for T
      using Some et by (simp add: withTag_def)
    have c: "scoreOf (tagsAll ?s') T = int (card (withTag lc ?s' T))" for T
    proof -
      have inv: "scoreOf (tagsAll s) T = int (card (withTag lc s T))"
        using assms by (simp add: tagInv_def)
      have pos: "k \<in> withTag lc s T \<Longrightarrow> 0 < card (withTag lc s T)"
        by (auto simp: card_gt_0_iff)
      have "scoreOf (tagsAll ?s') T
          = (let v = scoreOf (tagsAll s) T - int (count_list (map lc ts) T)
             in if 0 < v then v else 0)"
        by (simp add: scoreOf_def [of "tagsAll ?s'"] tagsAll_deleteAsset [OF Some ts cs] Let_def)
      then show ?thesis
        using inv mem [of T] pos dold
        by (auto simp: withTag_deleteAsset [OF Some ts cs] count_list_distinct Let_def
              card_Diff_singleton_if simp del: set_map)
    qed
    from d t c show ?thesis unfolding tagInv_def by blast
  qed
qed

subsection \<open>The collection commands\<close>

lemma tagInv_createCollection:
  assumes "tagInv lc s"
  shows "tagInv lc (snd (createCollection s uid now score name descr))"
proof (rule tagInv_same_tags [OF assms])
  show "distinct (map fst (assetKeys (snd (createCollection s uid now score name descr))))"
    using assms by (simp add: tagInv_def createCollection_def Let_def)
qed (simp_all add: createCollection_def Let_def getAsset_def)

lemma tagInv_updateCollection:
  assumes "tagInv lc s"
  shows "tagInv lc (snd (updateCollection s k updates now))"
proof (rule tagInv_same_tags [OF assms])
  show "distinct (map fst (assetKeys (snd (updateCollection s k updates now))))"
    using assms by (simp add: tagInv_def updateCollection_def Let_def split: option.splits)
qed (simp_all add: updateCollection_def Let_def getAsset_def split: option.splits)

lemma tagInv_addAssetToCollection:
  assumes "tagInv lc s" and "addAssetToCollection s c a now1 now2 = Inr s'"
  shows "tagInv lc s'"
proof (rule tagInv_same_tags [OF assms(1)])
  show "distinct (map fst (assetKeys s'))"
    using assms
    by (auto simp: addAssetToCollection_def tagInv_def distinct_update
          split: option.splits if_splits)
  show "tagsAll s' = tagsAll s"
    using assms(2) by (auto simp: addAssetToCollection_def split: option.splits if_splits)
  show "map_option s_tags (getAsset s' k) = map_option s_tags (getAsset s k)" for k
    using assms(2)
    by (auto simp: addAssetToCollection_def getAsset_def update_conv'
          split: option.splits if_splits)
qed

lemma tagInv_removeAssetFromCollection:
  assumes "tagInv lc s" and "removeAssetFromCollection s c a now1 now2 = Inr s'"
  shows "tagInv lc s'"
proof (rule tagInv_same_tags [OF assms(1)])
  show "distinct (map fst (assetKeys s'))"
    using assms
    by (auto simp: removeAssetFromCollection_def tagInv_def distinct_update
          split: option.splits if_splits)
  show "tagsAll s' = tagsAll s"
    using assms(2) by (auto simp: removeAssetFromCollection_def split: option.splits if_splits)
  show "map_option s_tags (getAsset s' k) = map_option s_tags (getAsset s k)" for k
    using assms(2)
    by (auto simp: removeAssetFromCollection_def getAsset_def update_conv'
          split: option.splits if_splits)
qed

lemma distinct_rewriteRound:
  "distinct (map fst (assetKeys st)) \<Longrightarrow>
   distinct (map fst (assetKeys (rewriteRound cid clock st ir)))"
  by (cases "snd ir") (simp_all add: rewriteRound_def distinct_update)

lemma distinct_fold_rewriteRound:
  "distinct (map fst (assetKeys st)) \<Longrightarrow>
   distinct (map fst (assetKeys (fold (\<lambda>ir st. rewriteRound cid clock st ir) irs st)))"
proof (induction irs arbitrary: st)
  case Nil
  then show ?case by simp
next
  case (Cons ir irs)
  from Cons.IH [OF distinct_rewriteRound [OF Cons.prems]] show ?case by simp
qed

lemma distinct_deleteCollection:
  "distinct (map fst (assetKeys s)) \<Longrightarrow>
   distinct (map fst (assetKeys (snd (deleteCollection s c clock))))"
proof (cases "getCollection s c")
  case None
  assume "distinct (map fst (assetKeys s))"
  with None show ?thesis by simp
next
  case (Some col)
  assume "distinct (map fst (assetKeys s))"
  then show ?thesis
    by (simp add: deleteCollection_rounds [OF Some] Let_def distinct_fold_rewriteRound)
qed

lemma tagInv_deleteCollection:
  assumes "tagInv lc s" and "keyed s"
  shows "tagInv lc (snd (deleteCollection s c clock))"
proof (cases "getCollection s c")
  case None
  with assms show ?thesis by simp
next
  case (Some col)
  show ?thesis
  proof (rule tagInv_same_tags [OF assms(1)])
    show "distinct (map fst (assetKeys (snd (deleteCollection s c clock))))"
      using assms(1) by (simp add: tagInv_def distinct_deleteCollection)
    show "tagsAll (snd (deleteCollection s c clock)) = tagsAll s"
      by (simp add: deleteCollection_fields [OF Some])
    show "map_option s_tags (getAsset (snd (deleteCollection s c clock)) k)
        = map_option s_tags (getAsset s k)" for k
    proof (cases "fst (deleteCollection s c clock) = Inr True")
      case ret: True
      show ?thesis
      proof (cases "k \<in> set (assetsByCollection s c) \<and> getAsset s k \<noteq> None")
        case True
        then obtain a where a: "getAsset s k = Some a" by auto
        with True deleteCollection_assets [OF assms(2) Some ret, of k] obtain t where
          "getAsset (snd (deleteCollection s c clock)) k = Some (rewritten c a t)" by blast
        with a show ?thesis by simp
      next
        case False
        with deleteCollection_assets [OF assms(2) Some ret, of k] show ?thesis by auto
      qed
    next
      case False
      from deleteCollection_throws [OF Some False] show ?thesis by (simp add: getAsset_def)
    qed
  qed
qed

subsection \<open>Every sequence of operations\<close>

lemma tagInv_step:
  assumes "tagInv lc s" and "keyed s" and "freshStep s x" and "tagsDistinctOp lc x"
  shows "tagInv lc (step lc s x)"
proof (cases x)
  case (CreateAsset uid now score input)
  with assms show ?thesis by (simp add: tagInv_createAsset)
next
  case (UpdateAsset k updates now)
  with assms show ?thesis by (simp add: tagInv_updateAsset)
next
  case (DeleteAsset k)
  with assms show ?thesis by (simp add: tagInv_deleteAsset)
next
  case (CreateCollection uid now score name descr)
  with assms show ?thesis by (simp add: tagInv_createCollection)
next
  case (UpdateCollection k updates now)
  with assms show ?thesis by (simp add: tagInv_updateCollection)
next
  case (DeleteCollection k clock)
  with assms show ?thesis by (simp add: tagInv_deleteCollection)
next
  case (AddAssetToCollection c a now1 now2)
  show ?thesis
  proof (cases "addAssetToCollection s c a now1 now2")
    case (Inl e)
    with assms AddAssetToCollection show ?thesis by simp
  next
    case (Inr s')
    with AddAssetToCollection tagInv_addAssetToCollection [OF assms(1) Inr]
    show ?thesis by simp
  qed
next
  case (RemoveAssetFromCollection c a now1 now2)
  show ?thesis
  proof (cases "removeAssetFromCollection s c a now1 now2")
    case (Inl e)
    with assms RemoveAssetFromCollection show ?thesis by simp
  next
    case (Inr s')
    with RemoveAssetFromCollection tagInv_removeAssetFromCollection [OF assms(1) Inr]
    show ?thesis by simp
  qed
qed

lemma tagInv_run:
  "tagInv lc s \<Longrightarrow> keyed s \<Longrightarrow> freshRun lc s ops \<Longrightarrow> list_all (tagsDistinctOp lc) ops
   \<Longrightarrow> tagInv lc (run lc s ops)"
proof (induction ops arbitrary: s)
  case Nil
  then show ?case by simp
next
  case (Cons x xs)
  have 1: "tagInv lc (step lc s x)" using Cons.prems by (simp add: tagInv_step)
  have 2: "keyed (step lc s x)" using Cons.prems(2) by (rule keyed_step)
  from Cons.IH [OF 1 2] Cons.prems show ?case by simp
qed

definition exDupOps :: "op list" where
  "exDupOps = [CreateAsset (str ''a1'') 20 20 (exInput\<lparr>tags := [str ''a'', str ''A'']\<rparr>)]"

definition exZeroOps :: "op list" where
  "exZeroOps = [CreateAsset (str ''a1'') 20 20 (exInput\<lparr>tags := [str ''x'']\<rparr>),
                UpdateAsset (str ''a1'') (noUpdates\<lparr>u_tags := Some (Some [])\<rparr>) 30]"

definition exTaglessOps :: "op list" where
  "exTaglessOps = [CreateAsset (str ''a1'') 20 20 (exInput\<lparr>tags := [str ''x'']\<rparr>),
                   UpdateAsset (str ''a1'') exNoTags 30]"

definition exTagOps :: "op list" where
  "exTagOps = [CreateAsset (str ''a1'') 20 20 exInput,
               CreateAsset (str ''a3'') 21 21 (exInput\<lparr>tags := [str ''DEMO'']\<rparr>),
               UpdateAsset (str ''a1'')
                 (noUpdates\<lparr>u_tags := Some (Some [str ''demo'', str ''x'']),
                            u_collections := Some None\<rparr>) 30,
               DeleteAsset (str ''a3'')]"

lemmas ex_eval = createAsset_def updateAsset_def deleteAsset_def Let_def getAsset_def
  indexAssetForSearch_def removeAssetFromSearchIndex_def zincrbyEach_def zincrby_def
  zremrangebyscore_def saddEach_def sremEach_def sadd_def srem_def
  asset_input.defs asset.defs mergeAsset_def spread_def coalesce_def noUpdates_def
  exInput_def emptyStore_def str_def asciiLower_def stored_def joined_def includesJs_def
  extractWords_def matchWords_def wordChar_def uniq_def tagsOf_def exNoTags_def

text \<open>
  Claim C1 as it is stated does not hold of the code. \<open>createAsset\<close> increments the
  counter once per element of the tag list, so an asset created with the tags \<open>a\<close> and
  \<open>A\<close> raises the counter of \<open>a\<close> to 2 while one live asset carries it. \<open>updateAsset\<close>
  never prunes: taking the only tag \<open>x\<close> off the only asset leaves the entry of \<open>x\<close> in
  the counters with the score 0. And an update that supplies \<open>tags\<close> as \<open>undefined\<close>
  writes the record without its tags and leaves the counters as they were: the counter
  of \<open>x\<close> stays 1 while no live asset carries \<open>x\<close>.
\<close>

theorem tag_counter_counterexample:
  "tagsAll (run asciiLower emptyStore exDupOps) (asciiLower (str ''A'')) = Some 2
   \<and> liveWithTag asciiLower (run asciiLower emptyStore exDupOps) (asciiLower (str ''A'')) = 1
   \<and> tagsAll (run asciiLower emptyStore exZeroOps) (str ''x'') = Some 0
   \<and> tagsAll (run asciiLower emptyStore exTaglessOps) (str ''x'') = Some 1
   \<and> liveWithTag asciiLower (run asciiLower emptyStore exTaglessOps) (str ''x'') = 0"
proof -
  have 1: "tagsAll (run asciiLower emptyStore exDupOps) (asciiLower (str ''A'')) = Some 2"
    by (simp add: exDupOps_def ex_eval)
  have 2: "liveWithTag asciiLower (run asciiLower emptyStore exDupOps) (asciiLower (str ''A'')) = 1"
    by (simp add: exDupOps_def liveWithTag_def ex_eval image_iff) (rule exI [of _ "[97]"], simp)
  have 3: "tagsAll (run asciiLower emptyStore exZeroOps) (str ''x'') = Some 0"
    by (simp add: exZeroOps_def ex_eval)
  have 4: "tagsAll (run asciiLower emptyStore exTaglessOps) (str ''x'') = Some 1"
    by (simp add: exTaglessOps_def ex_eval)
  have 5: "liveWithTag asciiLower (run asciiLower emptyStore exTaglessOps) (str ''x'') = 0"
    by (simp add: exTaglessOps_def liveWithTag_def ex_eval)
  from 1 2 3 4 5 show ?thesis by simp
qed

lemma exTagOps_fresh: "freshRun asciiLower emptyStore exTagOps"
  by (simp add: exTagOps_def ex_eval)

lemma exTagOps_distinct: "list_all (tagsDistinctOp asciiLower) exTagOps"
  by (simp add: exTagOps_def ex_eval)

lemma exTagOps_demo: "tagsAll (run asciiLower emptyStore exTagOps) (str ''demo'') = Some 1"
  by (simp add: exTagOps_def ex_eval)

text \<open>
  Claim C1, amended. For every sequence of operations from the empty store in which the
  create calls draw fresh identifiers, no tag list given to \<open>createAsset\<close> or
  \<open>updateAsset\<close> has two tags with the same case-folded form, and no update supplies
  \<open>tags\<close> as \<open>undefined\<close>: for every string \<open>T\<close>, the counter of \<open>T\<close> (zero when the
  counters have no entry for it) is the number of live assets whose case-folded tags
  contain \<open>T\<close>; and in the store that a \<open>deleteAsset\<close> which returns true leaves, every
  counter entry is above zero.
\<close>

theorem tag_counter_invariant:
  assumes "freshRun lc emptyStore ops" and "list_all (tagsDistinctOp lc) ops"
  shows "(\<forall>T. scoreOf (tagsAll (run lc emptyStore ops)) T
              = int (liveWithTag lc (run lc emptyStore ops) T))
     \<and> (\<forall>k T v. fst (deleteAsset lc (run lc emptyStore ops) k) = Inr True
           \<and> tagsAll (snd (deleteAsset lc (run lc emptyStore ops) k)) T = Some v
         \<longrightarrow> 0 < v)"
proof -
  let ?s = "run lc emptyStore ops"
  have inv: "tagInv lc ?s"
    using assms by (intro tagInv_run tagInv_emptyStore keyed_emptyStore)
  then have 1: "scoreOf (tagsAll ?s) T = int (liveWithTag lc ?s T)" for T
    by (simp add: tagInv_def liveWithTag_card)
  have 2: "0 < v"
    if r: "fst (deleteAsset lc ?s k) = Inr True"
      and v: "tagsAll (snd (deleteAsset lc ?s k)) T = Some v" for k T v
  proof (cases "getAsset ?s k")
    case None
    with r show ?thesis by simp
  next
    case (Some a)
    from tagInvD [OF inv Some] obtain ts where ts: "s_tags a = Some ts" by blast
    show ?thesis
    proof (cases "s_collections a")
      case None
      with r Some ts show ?thesis by (simp add: deleteAsset_noCollections)
    next
      case cs: (Some cs)
      from tagsAll_deleteAsset [OF Some ts cs, of lc T] v show ?thesis
        by (simp add: Let_def split: if_splits)
    qed
  qed
  from 1 2 show ?thesis by blast
qed

theorem tag_counter_invariant_witness:
  "freshRun asciiLower emptyStore exTagOps
   \<and> list_all (tagsDistinctOp asciiLower) exTagOps
   \<and> tagsAll (run asciiLower emptyStore exTagOps) (str ''demo'') = Some 1
   \<and> liveWithTag asciiLower (run asciiLower emptyStore exTagOps) (str ''demo'') = 1"
proof -
  from tag_counter_invariant [OF exTagOps_fresh exTagOps_distinct]
  have "scoreOf (tagsAll (run asciiLower emptyStore exTagOps)) (str ''demo'')
      = int (liveWithTag asciiLower (run asciiLower emptyStore exTagOps) (str ''demo''))"
    by blast
  then have "liveWithTag asciiLower (run asciiLower emptyStore exTagOps) (str ''demo'') = 1"
    by (simp add: scoreOf_def exTagOps_demo)
  with exTagOps_fresh exTagOps_distinct exTagOps_demo show ?thesis by blast
qed

section \<open>What a search returns\<close>

subsection \<open>The tokenizer\<close>


function maximalRuns :: "jsstring \<Rightarrow> jsstring list" where
  "maximalRuns s =
     (let t = dropWhile (\<lambda>c. \<not> wordChar c) s
      in if t = [] then [] else takeWhile wordChar t # maximalRuns (dropWhile wordChar t))"
  by pat_completeness auto
termination
proof (relation "measure length")
  show "wf (measure length)" by simp
next
  fix s t :: jsstring
  assume t: "t = dropWhile (\<lambda>c. \<not> wordChar c) s" and ne: "t \<noteq> []"
  then have "wordChar (hd t)" using hd_dropWhile [of "\<lambda>c. \<not> wordChar c" s] by simp
  with ne have "dropWhile wordChar t = dropWhile wordChar (tl t)" by (cases t) simp_all
  then have "length (dropWhile wordChar t) \<le> length (tl t)"
    using length_dropWhile_le [of wordChar "tl t"] by simp
  also have "\<dots> < length t" using ne by simp
  also have "\<dots> \<le> length s" unfolding t by (rule length_dropWhile_le)
  finally show "(dropWhile wordChar t, s) \<in> measure length" by simp
qed

declare maximalRuns.simps [simp del]

lemma maximalRuns_Nil [simp]: "maximalRuns [] = []"
  by (subst maximalRuns.simps) simp











subsection \<open>Sorting\<close>

lemma set_insertBy [simp]: "set (insertBy cmp x ys) = insert x (set ys)"
  by (induction ys) auto

lemma length_insertBy [simp]: "length (insertBy cmp x ys) = Suc (length ys)"
  by (induction ys) auto

lemma distinct_insertBy [simp]: "distinct (insertBy cmp x ys) = (x \<notin> set ys \<and> distinct ys)"
  by (induction ys) auto

lemma set_sortBy [simp]: "set (sortBy cmp xs) = set xs"
  by (induction xs) (auto simp: sortBy_def)

lemma length_sortBy [simp]: "length (sortBy cmp xs) = length xs"
  by (induction xs) (auto simp: sortBy_def)

lemma sortBy_Cons: "sortBy cmp (x # xs) = insertBy cmp x (sortBy cmp xs)"
  by (simp add: sortBy_def)

lemma distinct_sortBy [simp]: "distinct (sortBy cmp xs) = distinct xs"
  by (induction xs) (simp_all add: sortBy_Cons, simp add: sortBy_def)




subsection \<open>Intersection and fetch\<close>


lemma sinter_single: "sinter [xs] = xs"
  by simp

lemma distinct_sinter: "xss \<noteq> [] \<Longrightarrow> distinct (hd xss) \<Longrightarrow> distinct (sinter xss)"
  by (cases xss) auto



subsection \<open>The word sets have no repeated member\<close>

definition wordSetsDistinct :: "store \<Rightarrow> bool" where
  "wordSetsDistinct s = (\<forall>w. distinct (searchWord s w))"





lemma wordSetsDistinct_searchWord:
  "wordSetsDistinct (s\<lparr>searchWord := f\<rparr>) = (\<forall>w. distinct (f w))"
  by (simp add: wordSetsDistinct_def)






subsection \<open>Every record has its MIME type\<close>










subsection \<open>The result of searchAssets\<close>














subsection \<open>Examples\<close>


































section \<open>The outcome of the pipeline\<close>

subsection \<open>Job names\<close>

lemma lowerAlnum_digit36: "d < 36 \<Longrightarrow> lowerAlnum (digit36 d)"
  by (auto simp: lowerAlnum_def digit36_def)

lemma toString36_valid: "toString36 n \<noteq> [] \<and> list_all lowerAlnum (toString36 n)"
proof (induction n rule: toString36.induct)
  case (1 n)
  show ?case
  proof (cases "n < 36")
    case True
    then show ?thesis by (subst (1 2) toString36.simps) (simp add: lowerAlnum_digit36)
  next
    case False
    with 1 show ?thesis by (subst (1 2) toString36.simps) (simp add: lowerAlnum_digit36)
  qed
qed

lemma validJobName_generate: "validJobName (generateFfmpegJobName lc pre nowMs)"
  using toString36_valid [of nowMs]
  by (auto simp: validJobName_def generateFfmpegJobName_def list_all_iff)

lemma createFfmpegJob_generated:
  "createFfmpegJob j (generateFfmpegJobName lc pre nowMs) =
     (case creation j of
        CreateThrows \<Rightarrow> Inl CreationFailed
      | Created st \<Rightarrow> Inr (generateFfmpegJobName lc pre nowMs,
                           (case st of None \<Rightarrow> str ''Running'' | Some v \<Rightarrow> v)))"
  by (simp add: createFfmpegJob_def validJobName_generate)

lemma getS3Uri_default:
  "ty \<noteq> Original \<Longrightarrow> \<exists>u. getS3Uri k ty None = Inr u"
  by (cases ty) (simp_all add: getS3Uri_def defaultNames_def str_def)

lemma getS3Uri_original:
  "(\<exists>u. getS3Uri k Original (Some f) = Inr u) \<longleftrightarrow> f \<noteq> []"
  by (simp add: getS3Uri_def)

subsection \<open>The pipeline, branch by branch\<close>

definition isVideo :: "asset \<Rightarrow> bool" where
  "isVideo a = startsWith (mimeType a) (str ''video/'')"

definition submits :: "job \<Rightarrow> bool" where
  "submits j = (creation j \<noteq> CreateThrows)"

definition proxyDone :: "pipeline_env \<Rightarrow> bool" where
  "proxyDone env = (waitForFfmpegJob (proxyJob env) DEFAULT_FFMPEG_MAX_WAIT_MS = str ''Complete'')"

definition thumbDone :: "pipeline_env \<Rightarrow> bool" where
  "thumbDone env = (waitForFfmpegJob (thumbJob env) DEFAULT_FFMPEG_MAX_WAIT_MS = str ''Complete'')"

definition setStatus :: "proxy_status \<Rightarrow> asset_updates" where
  "setStatus st = noUpdates\<lparr>u_proxyStatus := Some (Some st)\<rparr>"

definition readyUpdates :: "pipeline_env \<Rightarrow> asset \<Rightarrow> asset_updates" where
  "readyUpdates env a =
     (let updates = noUpdates\<lparr>
            u_proxyKey := Some (Some (str ''proxies/'' @ a_id a @ str ''/proxy.mp4'')),
            u_proxyStatus := Some (Some Ready)\<rparr>
      in if thumbDone env
         then updates\<lparr>u_thumbnailKey :=
                Some (Some (str ''thumbnails/'' @ a_id a @ str ''/thumb.jpg''))\<rparr>
         else updates)"

text \<open>A run in which no call of \<open>updateAsset\<close> throws: the call for an asset that is not a
  video, and the two calls for a video.\<close>

lemma tryUpdate_returns:
  "fst (updateAsset lc s (a_id a) updates (lastUpdateAt env)) = Inr r \<Longrightarrow>
   tryUpdate lc env s a updates = snd (updateAsset lc s (a_id a) updates (lastUpdateAt env))"
  by (cases "updateAsset lc s (a_id a) updates (lastUpdateAt env)") (simp add: tryUpdate_def)

lemma triggerProxyGeneration_branches:
  assumes n1: "fst (updateAsset lc s (a_id a) (setStatus NoProxy) (firstUpdateAt env)) = Inr r1"
    and n2: "fst (updateAsset lc s (a_id a) (setStatus Processing) (firstUpdateAt env)) = Inr r2"
    and n3: "fst (updateAsset lc
                   (snd (updateAsset lc s (a_id a) (setStatus Processing) (firstUpdateAt env)))
                   (a_id a) (setStatus Failed) (lastUpdateAt env)) = Inr r3"
    and n4: "fst (updateAsset lc
                   (snd (updateAsset lc s (a_id a) (setStatus Processing) (firstUpdateAt env)))
                   (a_id a) (readyUpdates env a) (lastUpdateAt env)) = Inr r4"
  shows "triggerProxyGeneration lc env s a =
     (Inr (),
      if \<not> isVideo a
      then snd (updateAsset lc s (a_id a) (setStatus NoProxy) (firstUpdateAt env))
      else
        let s1 = snd (updateAsset lc s (a_id a) (setStatus Processing) (firstUpdateAt env))
        in if filename a \<noteq> [] \<and> submits (proxyJob env) \<and> proxyDone env \<and> submits (thumbJob env)
           then snd (updateAsset lc s1 (a_id a) (readyUpdates env a) (lastUpdateAt env))
           else snd (updateAsset lc s1 (a_id a) (setStatus Failed) (lastUpdateAt env)))"
proof -
  obtain pu where pu: "getS3Uri (a_id a) Proxy None = Inr pu"
    using getS3Uri_default [of Proxy "a_id a"] by auto
  obtain tu where tu: "getS3Uri (a_id a) Thumbnail None = Inr tu"
    using getS3Uri_default [of Thumbnail "a_id a"] by auto
  have orig: "getS3Uri (a_id a) Original (Some (filename a)) =
      (if filename a = [] then Inl FilenameRequired
       else Inr (str ''s3://'' @ BUCKET @ str ''/'' @ PREFIXES Original @ str ''/'' @ a_id a
                       @ str ''/'' @ filename a))"
    by (simp add: getS3Uri_def)
  obtain s0 where u1: "updateAsset lc s (a_id a) (setStatus NoProxy) (firstUpdateAt env) = (Inr r1, s0)"
    using n1 by (cases "updateAsset lc s (a_id a) (setStatus NoProxy) (firstUpdateAt env)") simp
  obtain s1 where u2: "updateAsset lc s (a_id a) (setStatus Processing) (firstUpdateAt env) = (Inr r2, s1)"
    using n2 by (cases "updateAsset lc s (a_id a) (setStatus Processing) (firstUpdateAt env)") simp
  have t3: "tryUpdate lc env s1 a (setStatus Failed)
              = snd (updateAsset lc s1 (a_id a) (setStatus Failed) (lastUpdateAt env))"
    using n3 u2 by (intro tryUpdate_returns) simp
  have t4: "tryUpdate lc env s1 a (readyUpdates env a)
              = snd (updateAsset lc s1 (a_id a) (readyUpdates env a) (lastUpdateAt env))"
    using n4 u2 by (intro tryUpdate_returns) simp
  have t3': "tryUpdate lc env s1 a (noUpdates\<lparr>u_proxyStatus := Some (Some Failed)\<rparr>)
              = snd (updateAsset lc s1 (a_id a) (setStatus Failed) (lastUpdateAt env))"
    using t3 by (simp add: setStatus_def)
  have t4': "tryUpdate lc env s1 a
               (if waitForFfmpegJob (thumbJob env) DEFAULT_FFMPEG_MAX_WAIT_MS = str ''Complete''
                then noUpdates\<lparr>u_proxyKey := Some (Some (str ''proxies/'' @ a_id a @ str ''/proxy.mp4'')),
                       u_proxyStatus := Some (Some Ready),
                       u_thumbnailKey := Some (Some (str ''thumbnails/'' @ a_id a @ str ''/thumb.jpg''))\<rparr>
                else noUpdates\<lparr>u_proxyKey := Some (Some (str ''proxies/'' @ a_id a @ str ''/proxy.mp4'')),
                       u_proxyStatus := Some (Some Ready)\<rparr>)
              = snd (updateAsset lc s1 (a_id a) (readyUpdates env a) (lastUpdateAt env))"
    using t4 by (simp add: readyUpdates_def thumbDone_def Let_def)
  have mf: "markFailed lc env s1 a
              = snd (updateAsset lc s1 (a_id a) (setStatus Failed) (lastUpdateAt env))"
    by (simp add: markFailed_def catchHandler_def setStatus_def)
  have u1': "updateAsset lc s (a_id a) (noUpdates\<lparr>u_proxyStatus := Some (Some NoProxy)\<rparr>)
               (firstUpdateAt env) = (Inr r1, s0)"
    using u1 by (simp add: setStatus_def)
  have u2': "updateAsset lc s (a_id a) (noUpdates\<lparr>u_proxyStatus := Some (Some Processing)\<rparr>)
               (firstUpdateAt env) = (Inr r2, s1)"
    using u2 by (simp add: setStatus_def)
  show ?thesis
    unfolding triggerProxyGeneration_def createFfmpegJob_generated pu tu orig u1' u2' u1 u2
      isVideo_def submits_def proxyDone_def Let_def
    by (cases "creation (proxyJob env)"; cases "creation (thumbJob env)")
       (simp_all add: mf t3' t4')
qed

subsection \<open>An update that touches no indexed field\<close>

definition sameButAsset :: "jsstring \<Rightarrow> store \<Rightarrow> store \<Rightarrow> bool" where
  "sameButAsset k s s' =
     ((\<forall>k'. k' \<noteq> k \<longrightarrow> getAsset s' k' = getAsset s k')
      \<and> map fst (assetKeys s') = map fst (assetKeys s)
      \<and> assetsIndex s' = assetsIndex s
      \<and> assetsByCollection s' = assetsByCollection s
      \<and> collectionKeys s' = collectionKeys s
      \<and> collectionsIndex s' = collectionsIndex s
      \<and> tagsAll s' = tagsAll s
      \<and> (\<forall>w. set (searchWord s' w) = set (searchWord s w)))"

definition artifactUpdates :: "asset_updates \<Rightarrow> bool" where
  "artifactUpdates u =
     (u_title u = None \<and> u_description u = None \<and> u_tags u = None \<and> u_collections u = None)"

lemma sameButAsset_trans:
  "sameButAsset k s s1 \<Longrightarrow> sameButAsset k s1 s2 \<Longrightarrow> sameButAsset k s s2"
  by (simp add: sameButAsset_def)

lemma filter_notin_self [simp]: "filter (\<lambda>t. t \<notin> set xs) xs = []"
  by (simp add: filter_empty_conv)

lemma saddEach_Nil [simp]: "saddEach [] x f = f"
  by (simp add: saddEach_def)

lemma sremEach_Nil [simp]: "sremEach [] x f = f"
  by (simp add: sremEach_def)

lemma zincrbyEach_Nil [simp]: "zincrbyEach d [] m = m"
  by (simp add: zincrbyEach_def)

lemma artifact_updateAsset:
  assumes c: "consistent lc s" and a0: "getAsset s k = Some a0" and u: "artifactUpdates updates"
  shows "sameButAsset k s (snd (updateAsset lc s k updates now))"
    and "getAsset (snd (updateAsset lc s k updates now)) k = Some (mergeAsset a0 updates now)"
    and "fst (updateAsset lc s k updates now) = Inr (Some (mergeAsset a0 updates now))"
    and "consistent lc (snd (updateAsset lc s k updates now))"
proof -
  let ?s' = "snd (updateAsset lc s k updates now)"
  let ?m = "mergeAsset a0 updates now"
  from consistentD [OF c a0] obtain ets ecs
    where id: "s_id a0 = k" and ets: "s_tags a0 = Some ets"
      and ecs: "s_collections a0 = Some ecs" by blast
  have t: "u_tags updates \<noteq> Some None" and ld: "listsDefined updates"
    using u by (simp_all add: artifactUpdates_def listsDefined_def)
  note e = updateAsset_effect [OF a0 ets ecs t, of lc now]
  note g' = getAsset_updateAsset [OF a0 ets ecs t, of lc now]
  have same: "s_tags ?m = s_tags a0" "s_collections ?m = s_collections a0"
    "s_title ?m = s_title a0" "s_description ?m = s_description a0"
    using u by (simp_all add: artifactUpdates_def mergeAsset_def spread_def)
  have words: "wordsOf lc ?m = wordsOf lc a0"
    by (simp add: wordsOf_def extractWords_def same ets)
  have tg: "tagsOf ?m = ets" using ets same(1) by (simp add: tagsOf_def)
  have co: "coalesce (u_collections updates) (Some ecs) = Some ecs"
    using u by (simp add: artifactUpdates_def coalesce_def)
  show g: "getAsset ?s' k = Some ?m" by (simp add: g')
  show "fst (updateAsset lc s k updates now) = Inr (Some ?m)" using e by simp
  show "consistent lc ?s'" using c ld by (rule consistent_updateAsset)
  have 1: "\<forall>k'. k' \<noteq> k \<longrightarrow> getAsset ?s' k' = getAsset s k'" by (simp add: g')
  have "k \<in> fst ` set (assetKeys s)"
    using a0 by (auto simp: getAsset_def dest: map_of_SomeD intro: rev_image_eqI)
  then have 2: "map fst (assetKeys ?s') = map fst (assetKeys s)"
    using e by (simp add: update_keys)
  have 3: "assetsIndex ?s' = assetsIndex s" "collectionKeys ?s' = collectionKeys s"
    "collectionsIndex ?s' = collectionsIndex s"
    using e by simp_all
  have 4: "tagsAll ?s' = tagsAll s" using e by (simp add: tg)
  have 5: "assetsByCollection ?s' = assetsByCollection s" using e by (simp add: co)
  have 6: "set (searchWord ?s' w) = set (searchWord s w)" for w
  proof -
    have "w \<in> set (wordsOf lc a0) \<Longrightarrow> k \<in> set (searchWord s w)"
      using c a0 by (auto simp: consistent_def wordIndexExact_def)
    then show ?thesis
      using e by (auto simp: set_saddEach set_sremEach words id)
  qed
  show "sameButAsset k s ?s'"
    unfolding sameButAsset_def using 1 2 3 4 5 6 by blast
qed

lemma artifactUpdates_setStatus [simp]: "artifactUpdates (setStatus st)"
  by (simp add: artifactUpdates_def setStatus_def noUpdates_def)

lemma artifactUpdates_readyUpdates [simp]: "artifactUpdates (readyUpdates env a)"
  by (simp add: artifactUpdates_def readyUpdates_def noUpdates_def Let_def)

lemma mergeAsset_setStatus:
  "mergeAsset a0 (setStatus st) t = a0\<lparr>s_proxyStatus := Some st, s_updatedAt := t\<rparr>"
  by (simp add: mergeAsset_def setStatus_def noUpdates_def spread_def)

lemma mergeAsset_readyUpdates:
  "mergeAsset a0 (readyUpdates env a) t =
     a0\<lparr>s_proxyStatus := Some Ready,
        s_proxyKey := Some (str ''proxies/'' @ a_id a @ str ''/proxy.mp4''),
        s_thumbnailKey := (if thumbDone env
                           then Some (str ''thumbnails/'' @ a_id a @ str ''/thumb.jpg'')
                           else s_thumbnailKey a0),
        s_updatedAt := t\<rparr>"
  by (simp add: mergeAsset_def readyUpdates_def noUpdates_def spread_def Let_def)

text \<open>The two updates of a video's run, the first to \<open>processing\<close>.\<close>

lemma pipeline_two_updates:
  assumes c: "consistent lc s" and a0: "getAsset s k = Some a0" and u: "artifactUpdates updates"
  shows "sameButAsset k s
           (snd (updateAsset lc (snd (updateAsset lc s k (setStatus Processing) t1)) k updates t2))"
    and "getAsset (snd (updateAsset lc (snd (updateAsset lc s k (setStatus Processing) t1)) k updates t2)) k
           = Some (mergeAsset (a0\<lparr>s_proxyStatus := Some Processing, s_updatedAt := t1\<rparr>) updates t2)"
    and "\<exists>r. fst (updateAsset lc (snd (updateAsset lc s k (setStatus Processing) t1)) k updates t2)
           = Inr r"
proof -
  let ?s1 = "snd (updateAsset lc s k (setStatus Processing) t1)"
  note first = artifact_updateAsset [OF c a0 artifactUpdates_setStatus, of Processing t1]
  have c1: "consistent lc ?s1" by (rule first(4))
  have s1: "sameButAsset k s ?s1"
    and g1: "getAsset ?s1 k = Some (a0\<lparr>s_proxyStatus := Some Processing, s_updatedAt := t1\<rparr>)"
    using first(1,2) by (simp_all add: mergeAsset_setStatus)
  note second = artifact_updateAsset [OF c1 g1 u, of t2]
  from second(1) s1
  show "sameButAsset k s (snd (updateAsset lc ?s1 k updates t2))"
    by (rule sameButAsset_trans [rotated])
  show "getAsset (snd (updateAsset lc ?s1 k updates t2)) k
           = Some (mergeAsset (a0\<lparr>s_proxyStatus := Some Processing, s_updatedAt := t1\<rparr>) updates t2)"
    by (rule second(2))
  show "\<exists>r. fst (updateAsset lc ?s1 k updates t2) = Inr r"
    using second(3) by blast
qed

lemma pipeline_outcomes:
  assumes c: "consistent lc s" and a0: "getAsset s (a_id a) = Some a0"
  shows "fst (triggerProxyGeneration lc env s a) = Inr ()"
    and "sameButAsset (a_id a) s (snd (triggerProxyGeneration lc env s a))"
    and "getAsset (snd (triggerProxyGeneration lc env s a)) (a_id a) =
      Some (if \<not> isVideo a
            then a0\<lparr>s_proxyStatus := Some NoProxy, s_updatedAt := firstUpdateAt env\<rparr>
            else if filename a \<noteq> [] \<and> submits (proxyJob env) \<and> proxyDone env
                    \<and> submits (thumbJob env)
            then a0\<lparr>s_proxyStatus := Some Ready,
                    s_proxyKey := Some (str ''proxies/'' @ a_id a @ str ''/proxy.mp4''),
                    s_thumbnailKey := (if thumbDone env
                                     then Some (str ''thumbnails/'' @ a_id a @ str ''/thumb.jpg'')
                                     else s_thumbnailKey a0),
                    s_updatedAt := lastUpdateAt env\<rparr>
            else a0\<lparr>s_proxyStatus := Some Failed, s_updatedAt := lastUpdateAt env\<rparr>)"
proof -
  note one = artifact_updateAsset [OF c a0 artifactUpdates_setStatus, of NoProxy "firstUpdateAt env"]
  note proc = artifact_updateAsset [OF c a0 artifactUpdates_setStatus, of Processing "firstUpdateAt env"]
  note failed = pipeline_two_updates [OF c a0 artifactUpdates_setStatus,
      of "firstUpdateAt env" Failed "lastUpdateAt env"]
  note ready = pipeline_two_updates [OF c a0 artifactUpdates_readyUpdates,
      of "firstUpdateAt env" env a "lastUpdateAt env"]
  from failed(3) obtain r3 where r3: "fst (updateAsset lc
                   (snd (updateAsset lc s (a_id a) (setStatus Processing) (firstUpdateAt env)))
                   (a_id a) (setStatus Failed) (lastUpdateAt env)) = Inr r3" by blast
  from ready(3) obtain r4 where r4: "fst (updateAsset lc
                   (snd (updateAsset lc s (a_id a) (setStatus Processing) (firstUpdateAt env)))
                   (a_id a) (readyUpdates env a) (lastUpdateAt env)) = Inr r4" by blast
  note b = triggerProxyGeneration_branches [OF one(3) proc(3) r3 r4]
  show "fst (triggerProxyGeneration lc env s a) = Inr ()" by (simp add: b)
  show "sameButAsset (a_id a) s (snd (triggerProxyGeneration lc env s a))"
    using one(1) failed(1) ready(1) by (simp add: b Let_def)
  show "getAsset (snd (triggerProxyGeneration lc env s a)) (a_id a) =
      Some (if \<not> isVideo a
            then a0\<lparr>s_proxyStatus := Some NoProxy, s_updatedAt := firstUpdateAt env\<rparr>
            else if filename a \<noteq> [] \<and> submits (proxyJob env) \<and> proxyDone env
                    \<and> submits (thumbJob env)
            then a0\<lparr>s_proxyStatus := Some Ready,
                    s_proxyKey := Some (str ''proxies/'' @ a_id a @ str ''/proxy.mp4''),
                    s_thumbnailKey := (if thumbDone env
                                     then Some (str ''thumbnails/'' @ a_id a @ str ''/thumb.jpg'')
                                     else s_thumbnailKey a0),
                    s_updatedAt := lastUpdateAt env\<rparr>
            else a0\<lparr>s_proxyStatus := Some Failed, s_updatedAt := lastUpdateAt env\<rparr>)"
    using one(2) failed(2) ready(2)
    by (simp add: b Let_def mergeAsset_setStatus mergeAsset_readyUpdates)
qed

definition exImage :: asset where
  "exImage = asset_input.extend (exInput\<lparr>mimeType := str ''image/png''\<rparr>)
               (asset.fields (str ''a4'') 20 20)"

definition exImageOps :: "op list" where
  "exImageOps = [CreateAsset (str ''a4'') 20 20 (exInput\<lparr>mimeType := str ''image/png''\<rparr>)]"

definition exImageStore :: store where
  "exImageStore = run asciiLower emptyStore exImageOps"

text \<open>The proxy job completes; creating the thumbnail job throws.\<close>

definition exEnvThumbThrows :: pipeline_env where
  "exEnvThumbThrows = \<lparr>proxyJob = exJob, thumbJob = exJob\<lparr>creation := CreateThrows\<rparr>,
     proxyNameMs = 1000, thumbNameMs = 2000, firstUpdateAt = 98, lastUpdateAt = 99,
     thirdUpdateAt = 100\<rparr>"

text \<open>Both jobs complete.\<close>

definition exEnv :: pipeline_env where
  "exEnv = \<lparr>proxyJob = exJob, thumbJob = exJob,
     proxyNameMs = 1000, thumbNameMs = 2000, firstUpdateAt = 98, lastUpdateAt = 99,
     thirdUpdateAt = 100\<rparr>"

text \<open>The proxy job completes; the thumbnail job ends in \<open>Error\<close>.\<close>

definition exErrorJob :: job where
  "exErrorJob = \<lparr>creation = Created (Some (str ''Running'')),
     queries = (\<lambda>k. Instance (Some (str ''Error''))), queryMs = (\<lambda>k. 5)\<rparr>"

definition exEnvThumbError :: pipeline_env where
  "exEnvThumbError = \<lparr>proxyJob = exJob, thumbJob = exErrorJob,
     proxyNameMs = 1000, thumbNameMs = 2000, firstUpdateAt = 98, lastUpdateAt = 99,
     thirdUpdateAt = 100\<rparr>"

lemma exErrorJob_fails: "waitForFfmpegJob exErrorJob DEFAULT_FFMPEG_MAX_WAIT_MS = str ''Error''"
  by (simp add: waitForFfmpegJob_def waitLoop.simps exErrorJob_def getFfmpegJobStatus_def
        terminalStatuses_def str_def FFMPEG_POLL_INTERVAL_MS_def DEFAULT_FFMPEG_MAX_WAIT_MS_def)

lemma exJob_completes: "waitForFfmpegJob exJob DEFAULT_FFMPEG_MAX_WAIT_MS = str ''Complete''"
  by (simp add: waitForFfmpegJob_def waitLoop.simps exJob_def getFfmpegJobStatus_def
        terminalStatuses_def str_def FFMPEG_POLL_INTERVAL_MS_def DEFAULT_FFMPEG_MAX_WAIT_MS_def)

lemma exImageStore_asset: "getAsset exImageStore (str ''a4'') = Some (stored exImage)"
  by (simp add: exImageStore_def exImageOps_def getAsset_createAsset exImage_def)

lemma exImageStore_consistent: "consistent asciiLower exImageStore"
  unfolding exImageStore_def
  by (rule consistent_run [OF consistent_emptyStore])
     (simp_all add: exImageOps_def emptyStore_def getAsset_def)

lemma exStore_consistent: "consistent asciiLower exStore"
  unfolding exStore_def
  by (rule consistent_run [OF consistent_emptyStore exOps_fresh exOps_defined])

lemma exImage_id: "a_id exImage = str ''a4''" and exImage_updatedAt: "updatedAt exImage = 20"
  and exImage_notVideo: "\<not> isVideo exImage"
  by (simp_all add: exImage_def asset_input.defs asset.defs isVideo_def startsWith_def
        exInput_def str_def)

lemma exAsset_id: "a_id exAsset = str ''a1''" and exAsset_video: "isVideo exAsset"
  and exAsset_filename: "filename exAsset \<noteq> []" and exAsset_thumbnailKey: "thumbnailKey exAsset = None"
  by (simp_all add: exAsset_def asset_input.defs asset.defs isVideo_def startsWith_def
        exInput_def str_def)

text \<open>
  Claim C2 as it is stated does not hold of the code. For an asset that is not a video
  the pipeline goes through \<open>updateAsset\<close>, which also refreshes \<open>updatedAt\<close>: the
  record it leaves is not the old record with only \<open>proxyStatus\<close> changed. And when the
  proxy job completes but creating the thumbnail job throws, the handler of the \<open>try\<close>
  block sets \<open>proxyStatus\<close> to \<open>failed\<close>, not to \<open>ready\<close>.
\<close>

theorem pipeline_counterexample:
  "getAsset exImageStore (str ''a4'') = Some (stored exImage)
   \<and> \<not> isVideo exImage
   \<and> getAsset (snd (triggerProxyGeneration asciiLower exEnv exImageStore exImage)) (str ''a4'')
       \<noteq> Some ((stored exImage)\<lparr>s_proxyStatus := Some NoProxy\<rparr>)
   \<and> getAsset exStore (str ''a1'') = Some (stored exAsset)
   \<and> isVideo exAsset
   \<and> waitForFfmpegJob (proxyJob exEnvThumbThrows) DEFAULT_FFMPEG_MAX_WAIT_MS = str ''Complete''
   \<and> getAsset (snd (triggerProxyGeneration asciiLower exEnvThumbThrows exStore exAsset)) (str ''a1'')
       = Some ((stored exAsset)\<lparr>s_proxyStatus := Some Failed, s_updatedAt := 99\<rparr>)"
proof -
  have i: "getAsset exImageStore (a_id exImage) = Some (stored exImage)"
    by (simp add: exImage_id exImageStore_asset)
  have "getAsset (snd (triggerProxyGeneration asciiLower exEnv exImageStore exImage)) (str ''a4'')
      = Some ((stored exImage)\<lparr>s_proxyStatus := Some NoProxy, s_updatedAt := 98\<rparr>)"
    using pipeline_outcomes(3) [OF exImageStore_consistent i, of exEnv]
    by (simp add: exImage_id exImage_notVideo exEnv_def)
  moreover have "(stored exImage)\<lparr>s_proxyStatus := Some NoProxy, s_updatedAt := 98\<rparr>
                   \<noteq> (stored exImage)\<lparr>s_proxyStatus := Some NoProxy\<rparr>"
  proof
    assume "(stored exImage)\<lparr>s_proxyStatus := Some NoProxy, s_updatedAt := 98\<rparr>
              = (stored exImage)\<lparr>s_proxyStatus := Some NoProxy\<rparr>"
    then have "s_updatedAt ((stored exImage)\<lparr>s_proxyStatus := Some NoProxy, s_updatedAt := 98\<rparr>)
        = s_updatedAt ((stored exImage)\<lparr>s_proxyStatus := Some NoProxy\<rparr>)" by (rule arg_cong)
    then show False by (simp add: exImage_updatedAt)
  qed
  ultimately have 1: "getAsset (snd (triggerProxyGeneration asciiLower exEnv exImageStore exImage)) (str ''a4'')
       \<noteq> Some ((stored exImage)\<lparr>s_proxyStatus := Some NoProxy\<rparr>)" by simp
  have v: "getAsset exStore (a_id exAsset) = Some (stored exAsset)"
    by (simp add: exStore_asset)
  have p: "waitForFfmpegJob (proxyJob exEnvThumbThrows) DEFAULT_FFMPEG_MAX_WAIT_MS = str ''Complete''"
    by (simp add: exEnvThumbThrows_def exJob_completes)
  have 2: "getAsset (snd (triggerProxyGeneration asciiLower exEnvThumbThrows exStore exAsset)) (str ''a1'')
       = Some ((stored exAsset)\<lparr>s_proxyStatus := Some Failed, s_updatedAt := 99\<rparr>)"
    using pipeline_outcomes(3) [OF exStore_consistent v, of exEnvThumbThrows]
    by (simp add: exAsset_video exAsset_filename)
       (simp add: exEnvThumbThrows_def submits_def)
  from 1 2 p exImageStore_asset exImage_notVideo exStore_asset exAsset_video
  show ?thesis by blast
qed

text \<open>
  Claim C2, amended. For a live asset of a store that the operations built from the empty
  store (no update having supplied \<open>tags\<close> or \<open>collections\<close> as \<open>undefined\<close>), the
  pipeline returns, and it changes the asset's record and nothing else in the store (the
  word sets keep their members). If the asset is not a video, the record becomes the old
  one with \<open>proxyStatus = none\<close> and a refreshed \<open>updatedAt\<close>. If it is a video and the
  proxy job is submitted (the file name is not empty and creating the job does not
  throw) and does not end as \<open>Complete\<close> (it ends as \<open>Failed\<close>, \<open>Error\<close> or
  \<open>timeout\<close>), the record becomes the old one with \<open>proxyStatus = failed\<close> and a
  refreshed \<open>updatedAt\<close>: no key is set. If the proxy job completes and the thumbnail job
  is submitted, the record becomes the old one with \<open>proxyStatus = ready\<close>, the proxy key
  set, the thumbnail key set if and only if the thumbnail job completed, and a refreshed
  \<open>updatedAt\<close>. If a step of the pipeline throws (empty file name, creating either job),
  the record becomes the old one with \<open>proxyStatus = failed\<close> and a refreshed
  \<open>updatedAt\<close>.
\<close>

theorem pipeline_outcome:
  assumes "freshRun lc emptyStore ops" and "list_all listsDefinedOp ops"
    and "s = run lc emptyStore ops"
    and "getAsset s (a_id a) = Some a0"
  shows "fst (triggerProxyGeneration lc env s a) = Inr ()
     \<and> sameButAsset (a_id a) s (snd (triggerProxyGeneration lc env s a))
     \<and> (\<not> isVideo a \<longrightarrow>
          getAsset (snd (triggerProxyGeneration lc env s a)) (a_id a)
            = Some (a0\<lparr>s_proxyStatus := Some NoProxy, s_updatedAt := firstUpdateAt env\<rparr>))
     \<and> (isVideo a \<and> filename a \<noteq> [] \<and> submits (proxyJob env) \<and> \<not> proxyDone env \<longrightarrow>
          getAsset (snd (triggerProxyGeneration lc env s a)) (a_id a)
            = Some (a0\<lparr>s_proxyStatus := Some Failed, s_updatedAt := lastUpdateAt env\<rparr>))
     \<and> (isVideo a \<and> filename a \<noteq> [] \<and> submits (proxyJob env) \<and> proxyDone env
          \<and> submits (thumbJob env) \<longrightarrow>
          getAsset (snd (triggerProxyGeneration lc env s a)) (a_id a)
            = Some (a0\<lparr>s_proxyStatus := Some Ready,
                      s_proxyKey := Some (str ''proxies/'' @ a_id a @ str ''/proxy.mp4''),
                      s_thumbnailKey := (if thumbDone env
                                       then Some (str ''thumbnails/'' @ a_id a @ str ''/thumb.jpg'')
                                       else s_thumbnailKey a0),
                      s_updatedAt := lastUpdateAt env\<rparr>))
     \<and> (isVideo a \<and> (filename a = [] \<or> \<not> submits (proxyJob env)
                      \<or> (proxyDone env \<and> \<not> submits (thumbJob env))) \<longrightarrow>
          getAsset (snd (triggerProxyGeneration lc env s a)) (a_id a)
            = Some (a0\<lparr>s_proxyStatus := Some Failed, s_updatedAt := lastUpdateAt env\<rparr>))"
proof -
  have c: "consistent lc s"
    using assms consistent_run [OF consistent_emptyStore] by simp
  note o = pipeline_outcomes [OF c assms(4), of env]
  show ?thesis
    apply (intro conjI impI)
         apply (rule o(1))
        apply (rule o(2))
       apply (simp add: o(3))
      apply (simp add: o(3))
     apply (simp add: o(3))
    apply (subst o(3))
    apply auto
    done
qed

theorem pipeline_outcome_witness:
  "freshRun asciiLower emptyStore exOps
   \<and> list_all listsDefinedOp exOps
   \<and> getAsset exStore (a_id exAsset) = Some (stored exAsset)
   \<and> isVideo exAsset \<and> filename exAsset \<noteq> []
   \<and> submits (proxyJob exEnv) \<and> proxyDone exEnv \<and> submits (thumbJob exEnv) \<and> thumbDone exEnv
   \<and> getAsset (snd (triggerProxyGeneration asciiLower exEnv exStore exAsset)) (a_id exAsset)
       = Some ((stored exAsset)\<lparr>s_proxyStatus := Some Ready,
                 s_proxyKey := Some (str ''proxies/a1/proxy.mp4''),
                 s_thumbnailKey := Some (str ''thumbnails/a1/thumb.jpg''),
                 s_updatedAt := 99\<rparr>)
   \<and> submits (proxyJob exEnvThumbError) \<and> proxyDone exEnvThumbError
   \<and> submits (thumbJob exEnvThumbError) \<and> \<not> thumbDone exEnvThumbError
   \<and> getAsset (snd (triggerProxyGeneration asciiLower exEnvThumbError exStore exAsset)) (a_id exAsset)
       = Some ((stored exAsset)\<lparr>s_proxyStatus := Some Ready,
                 s_proxyKey := Some (str ''proxies/a1/proxy.mp4''),
                 s_thumbnailKey := None,
                 s_updatedAt := 99\<rparr>)"
proof -
  have v: "getAsset exStore (a_id exAsset) = Some (stored exAsset)"
    by (simp add: exStore_asset)
  have e: "submits (proxyJob exEnv)" "proxyDone exEnv" "submits (thumbJob exEnv)" "thumbDone exEnv"
    by (simp_all add: exEnv_def submits_def proxyDone_def thumbDone_def exJob_completes)
       (simp_all add: exJob_def)
  have f: "submits (proxyJob exEnvThumbError)" "proxyDone exEnvThumbError"
    "submits (thumbJob exEnvThumbError)" "\<not> thumbDone exEnvThumbError"
    by (simp_all add: exEnvThumbError_def submits_def proxyDone_def thumbDone_def
          exJob_completes exErrorJob_fails)
       (simp_all add: exJob_def exErrorJob_def str_def)
  have tk: "s_thumbnailKey (stored exAsset) = None"
    by (simp add: stored_def exAsset_thumbnailKey)
  from pipeline_outcome [OF exOps_fresh exOps_defined exStore_run v, of exEnv]
  have "getAsset (snd (triggerProxyGeneration asciiLower exEnv exStore exAsset)) (a_id exAsset)
            = Some ((stored exAsset)\<lparr>s_proxyStatus := Some Ready,
                      s_proxyKey := Some (str ''proxies/'' @ a_id exAsset @ str ''/proxy.mp4''),
                      s_thumbnailKey := (if thumbDone exEnv
                                       then Some (str ''thumbnails/'' @ a_id exAsset @ str ''/thumb.jpg'')
                                       else s_thumbnailKey (stored exAsset)),
                      s_updatedAt := lastUpdateAt exEnv\<rparr>)"
    using e exAsset_video exAsset_filename by blast
  then have 1: "getAsset (snd (triggerProxyGeneration asciiLower exEnv exStore exAsset)) (a_id exAsset)
       = Some ((stored exAsset)\<lparr>s_proxyStatus := Some Ready,
                 s_proxyKey := Some (str ''proxies/a1/proxy.mp4''),
                 s_thumbnailKey := Some (str ''thumbnails/a1/thumb.jpg''),
                 s_updatedAt := 99\<rparr>)"
    using e(4) by (simp add: str_def) (simp add: exEnv_def)
  from pipeline_outcome [OF exOps_fresh exOps_defined exStore_run v, of exEnvThumbError]
  have "getAsset (snd (triggerProxyGeneration asciiLower exEnvThumbError exStore exAsset)) (a_id exAsset)
            = Some ((stored exAsset)\<lparr>s_proxyStatus := Some Ready,
                      s_proxyKey := Some (str ''proxies/'' @ a_id exAsset @ str ''/proxy.mp4''),
                      s_thumbnailKey := (if thumbDone exEnvThumbError
                                       then Some (str ''thumbnails/'' @ a_id exAsset @ str ''/thumb.jpg'')
                                       else s_thumbnailKey (stored exAsset)),
                      s_updatedAt := lastUpdateAt exEnvThumbError\<rparr>)"
    using f exAsset_video exAsset_filename by blast
  then have 2: "getAsset (snd (triggerProxyGeneration asciiLower exEnvThumbError exStore exAsset)) (a_id exAsset)
       = Some ((stored exAsset)\<lparr>s_proxyStatus := Some Ready,
                 s_proxyKey := Some (str ''proxies/a1/proxy.mp4''),
                 s_thumbnailKey := None,
                 s_updatedAt := 99\<rparr>)"
    using f(4) by (simp add: tk str_def) (simp add: exEnvThumbError_def)
  from 1 2 exOps_fresh exOps_defined v exAsset_video exAsset_filename e f show ?thesis by blast
qed

end
